theory Spec2Isabelle
  imports Main "HOL-Library.Word"
begin

section \<open>gonetx/ipset: command compilation, listing parser and restore streamer\<close>

text \<open>
  A shallow embedding of the Go package \<open>ipset\<close>. Go strings and byte slices are
  \<open>string\<close> (lists of 8-bit characters, so \<open>length\<close> counts bytes as \<open>len\<close> does).
  \<open>uint\<close> is a 64-bit word, \<open>byte\<close> an 8-bit word, \<open>uint32\<close> a 32-bit word and
  \<open>time.Duration\<close> a 64-bit word read as a signed number of nanoseconds.
  The external tool is a parameter of every function that runs it.
\<close>

subsection \<open>Commands, option flags and set types\<close>

text \<open>The command verbs (constants \<open>_create\<close> ... \<open>_swap\<close> of the source).\<close>

definition v_create :: string where "v_create = ''create''"
definition v_add :: string where "v_add = ''add''"
definition v_del :: string where "v_del = ''del''"
definition v_test :: string where "v_test = ''test''"
definition v_destroy :: string where "v_destroy = ''destroy''"
definition v_list :: string where "v_list = ''list''"
definition v_save :: string where "v_save = ''save''"
definition v_restore :: string where "v_restore = ''restore''"
definition v_flush :: string where "v_flush = ''flush''"
definition v_rename :: string where "v_rename = ''rename''"
definition v_swap :: string where "v_swap = ''swap''"

text \<open>The option tokens (constants \<open>_exist\<close> ... \<open>_range\<close> of the source).\<close>

definition o_exist :: string where "o_exist = ''-exist''"
definition o_resolve :: string where "o_resolve = ''-resolve''"
definition o_timeout :: string where "o_timeout = ''timeout''"
definition o_counters :: string where "o_counters = ''counters''"
definition o_packets :: string where "o_packets = ''packets''"
definition o_bytes :: string where "o_bytes = ''bytes''"
definition o_comment :: string where "o_comment = ''comment''"
definition o_skbinfo :: string where "o_skbinfo = ''skbinfo''"
definition o_skbmark :: string where "o_skbmark = ''skbmark''"
definition o_skbprio :: string where "o_skbprio = ''skbprio''"
definition o_skbqueue :: string where "o_skbqueue = ''skbqueue''"
definition o_nomatch :: string where "o_nomatch = ''nomatch''"
definition o_forceadd :: string where "o_forceadd = ''forceadd''"
definition o_family :: string where "o_family = ''family''"
definition o_hashsize :: string where "o_hashsize = ''hashsize''"
definition o_maxelem :: string where "o_maxelem = ''maxelem''"
definition o_netmask :: string where "o_netmask = ''netmask''"
definition o_markmask :: string where "o_markmask = ''markmask''"
definition o_size :: string where "o_size = ''size''"
definition o_range :: string where "o_range = ''range''"

type_synonym SetType = string
type_synonym NetFamily = string

definition BitmapIp :: SetType where "BitmapIp = ''bitmap:ip''"
definition BitmapIpMac :: SetType where "BitmapIpMac = ''bitmap:ip,mac''"
definition BitmapPort :: SetType where "BitmapPort = ''bitmap:port''"
definition HashIp :: SetType where "HashIp = ''hash:ip''"
definition HashMac :: SetType where "HashMac = ''hash:mac''"
definition HashIpMac :: SetType where "HashIpMac = ''hash:ip,mac''"
definition HashNet :: SetType where "HashNet = ''hash:net''"
definition HashNetNet :: SetType where "HashNetNet = ''hash:net,net''"
definition HashIpPort :: SetType where "HashIpPort = ''hash:ip,port''"
definition HashNetPort :: SetType where "HashNetPort = ''hash:net,port''"
definition HashIpPortIp :: SetType where "HashIpPortIp = ''hash:ip,port,ip''"
definition HashIpPortNet :: SetType where "HashIpPortNet = ''hash:ip,port,net''"
definition HashIpMark :: SetType where "HashIpMark = ''hash:ip,mark''"
definition HashNetPortNet :: SetType where "HashNetPortNet = ''hash:net,port,net''"
definition HashNetIface :: SetType where "HashNetIface = ''hash:net,iface''"
definition ListSet :: SetType where "ListSet = ''list:set''"

text \<open>The two tables the option tests iterate over.\<close>

definition testActions :: "string list" where
  "testActions = [v_create, v_add, v_del, v_test, v_destroy, v_list, v_save, v_restore,
     v_flush, v_rename, v_swap]"

definition testSetTypes :: "SetType list" where
  "testSetTypes = [BitmapIp, BitmapIpMac, BitmapPort, HashIp, HashMac, HashIpMac, HashNet,
     HashNetNet, HashIpPort, HashNetPort, HashIpPortIp, HashIpPortNet, HashIpMark,
     HashNetPortNet, HashNetIface, ListSet]"

text \<open>\<open>strings.HasPrefix\<close>.\<close>

definition HasPrefix :: "string \<Rightarrow> string \<Rightarrow> bool" where
  "HasPrefix s p = (take (length p) s = p)"

text \<open>\<open>strconv.FormatUint(i, 10)\<close>: the decimal digits, most significant first.\<close>

fun i2str :: "nat \<Rightarrow> string" where
  "i2str n = (if n < 10 then [''0123456789'' ! n]
              else i2str (n div 10) @ [''0123456789'' ! (n mod 10)])"

declare i2str.simps [simp del]

subsection \<open>The command descriptor and its applicability predicates\<close>

record cmd =
  action :: string
  name :: string
  entry :: string
  setType :: SetType
  out :: string

definition isTwoArgs :: "cmd \<Rightarrow> bool" where
  "isTwoArgs c = (action c = v_list \<or> action c = v_save \<or>
                  action c = v_destroy \<or> action c = v_flush)"

definition needExist :: "cmd \<Rightarrow> bool" where
  "needExist c = (action c = v_create \<or> action c = v_add \<or> action c = v_del)"

definition needTimeout :: "cmd \<Rightarrow> bool" where
  "needTimeout c = (action c = v_create \<or> action c = v_add)"

definition needResolve :: "cmd \<Rightarrow> bool" where
  "needResolve c = (action c = v_list \<or> action c = v_save)"

definition needCounters :: "cmd \<Rightarrow> bool" where
  "needCounters c = (action c = v_create)"

definition onlyAdd :: "cmd \<Rightarrow> bool" where
  "onlyAdd c = (action c = v_add)"

definition onlyCreate :: "cmd \<Rightarrow> bool" where
  "onlyCreate c = (action c = v_create)"

definition needNomatch :: "cmd \<Rightarrow> bool" where
  "needNomatch c = (action c = v_add \<and>
     (setType c = HashNet \<or> setType c = HashNetNet \<or>
      setType c = HashNetPort \<or> setType c = HashIpPortNet \<or>
      setType c = HashNetPortNet \<or> setType c = HashNetIface))"

definition needFamily :: "cmd \<Rightarrow> bool" where
  "needFamily c = (action c = v_create \<and> setType c \<noteq> HashMac \<and>
                   HasPrefix (setType c) ''hash'')"

definition needHash :: "cmd \<Rightarrow> bool" where
  "needHash c = (action c = v_create \<and> HasPrefix (setType c) ''hash'')"

definition needNetmask :: "cmd \<Rightarrow> bool" where
  "needNetmask c = (action c = v_create \<and> (setType c = BitmapIp \<or> setType c = HashIp))"

definition needMarkmask :: "cmd \<Rightarrow> bool" where
  "needMarkmask c = (action c = v_create \<and> setType c = HashIpMark)"

definition needListSize :: "cmd \<Rightarrow> bool" where
  "needListSize c = (action c = v_create \<and> setType c = ListSet)"

definition needIpRange :: "cmd \<Rightarrow> bool" where
  "needIpRange c = (action c = v_create \<and> (setType c = BitmapIp \<or> setType c = BitmapIpMac))"

definition needPortRange :: "cmd \<Rightarrow> bool" where
  "needPortRange c = (action c = v_create \<and> setType c = BitmapPort)"

subsection \<open>The modifier set\<close>

record options =
  exist :: bool
  resolve :: bool
  timeout :: "64 word"
  counters :: bool
  countersPackets :: "64 word"
  countersBytes :: "64 word"
  comment :: bool
  commentContent :: string
  skbinfo :: bool
  skbmark :: string
  skbprio :: string
  skbqueue :: "64 word"
  hashSize :: "64 word"
  maxElem :: "64 word"
  family :: NetFamily
  nomatch :: bool
  forceadd :: bool
  ipRange :: string
  portRange :: string
  netmask :: "8 word"
  markmask :: "32 word"
  listSize :: "64 word"

text \<open>
  An \<open>Option\<close> is a closure that stores one value into one field. The package exports
  exactly these twenty-two constructors, and the record type is not exported, so they are
  the only closures a caller can build.
\<close>

datatype Option =
    Timeout "64 word" | Exist bool | Resolve bool | Comment bool | CommentContent string
  | Counters bool | Packets "64 word" | Bytes "64 word" | Skbinfo bool | Skbmark string
  | Skbprio string | Skbqueue "64 word" | HashSize "64 word" | MaxElem "64 word"
  | Family NetFamily | Nomatch bool | Forceadd bool | Netmask "8 word"
  | Markmask "32 word" | ListSize "64 word" | IpRange string | PortRange string

fun run_Option :: "Option \<Rightarrow> options \<Rightarrow> options" where
  "run_Option (Timeout t) opt = opt\<lparr>timeout := t\<rparr>"
| "run_Option (Exist b) opt = opt\<lparr>exist := b\<rparr>"
| "run_Option (Resolve b) opt = opt\<lparr>resolve := b\<rparr>"
| "run_Option (Comment b) opt = opt\<lparr>comment := b\<rparr>"
| "run_Option (CommentContent s) opt = opt\<lparr>commentContent := s\<rparr>"
| "run_Option (Counters b) opt = opt\<lparr>counters := b\<rparr>"
| "run_Option (Packets n) opt = opt\<lparr>countersPackets := n\<rparr>"
| "run_Option (Bytes n) opt = opt\<lparr>countersBytes := n\<rparr>"
| "run_Option (Skbinfo b) opt = opt\<lparr>skbinfo := b\<rparr>"
| "run_Option (Skbmark s) opt = opt\<lparr>skbmark := s\<rparr>"
| "run_Option (Skbprio s) opt = opt\<lparr>skbprio := s\<rparr>"
| "run_Option (Skbqueue n) opt = opt\<lparr>skbqueue := n\<rparr>"
| "run_Option (HashSize n) opt = opt\<lparr>hashSize := n\<rparr>"
| "run_Option (MaxElem n) opt = opt\<lparr>maxElem := n\<rparr>"
| "run_Option (Family f) opt = opt\<lparr>family := f\<rparr>"
| "run_Option (Nomatch b) opt = opt\<lparr>nomatch := b\<rparr>"
| "run_Option (Forceadd b) opt = opt\<lparr>forceadd := b\<rparr>"
| "run_Option (Netmask n) opt = opt\<lparr>netmask := n\<rparr>"
| "run_Option (Markmask n) opt = opt\<lparr>markmask := n\<rparr>"
| "run_Option (ListSize n) opt = opt\<lparr>listSize := n\<rparr>"
| "run_Option (IpRange s) opt = opt\<lparr>ipRange := s\<rparr>"
| "run_Option (PortRange s) opt = opt\<lparr>portRange := s\<rparr>"

text \<open>\<open>options.apply\<close>: run the closures in order on the same record.\<close>

fun apply_opts :: "options \<Rightarrow> Option list \<Rightarrow> options" where
  "apply_opts opt [] = opt"
| "apply_opts opt (f # fs) = apply_opts (run_Option f opt) fs"

subsection \<open>The reuse pools\<close>

text \<open>
  A \<open>sync.Pool\<close> is modelled as the list of instances that were put back and not yet
  taken again; \<open>Get\<close> takes the most recent one, or calls \<open>New\<close> when there is none.
\<close>

definition new_options :: options where
  "new_options = \<lparr>exist = False, resolve = False, timeout = 0, counters = False,
     countersPackets = 0, countersBytes = 0, comment = False, commentContent = [],
     skbinfo = False, skbmark = [], skbprio = [], skbqueue = 0, hashSize = 0, maxElem = 0,
     family = [], nomatch = False, forceadd = False, ipRange = [], portRange = [],
     netmask = 0, markmask = 0, listSize = 0\<rparr>"

definition acquireOptions :: "options list \<Rightarrow> options \<times> options list" where
  "acquireOptions pool = (case pool of [] \<Rightarrow> (new_options, []) | x # rest \<Rightarrow> (x, rest))"

definition releaseOptions :: "options \<Rightarrow> options list \<Rightarrow> options list" where
  "releaseOptions opt pool =
     opt\<lparr>timeout := 0, exist := False, resolve := False, counters := False,
         countersPackets := 0, countersBytes := 0, comment := False, commentContent := [],
         skbinfo := False, skbmark := [], skbprio := [], skbqueue := 0, hashSize := 0,
         maxElem := 0, family := [], nomatch := False, forceadd := False, netmask := 0,
         markmask := 0, listSize := 0, ipRange := [], portRange := []\<rparr> # pool"

definition new_cmd :: cmd where
  "new_cmd = \<lparr>action = [], name = [], entry = [], setType = [], out = []\<rparr>"

definition cmdPool_Get :: "cmd list \<Rightarrow> cmd \<times> cmd list" where
  "cmdPool_Get pool = (case pool of [] \<Rightarrow> (new_cmd, []) | x # rest \<Rightarrow> (x, rest))"

text \<open>\<open>getCmd\<close>; the variadic \<open>entry\<close> parameter is a list, of which only the head is used.\<close>

definition getCmd :: "string \<Rightarrow> string \<Rightarrow> SetType \<Rightarrow> string list \<Rightarrow> cmd list \<Rightarrow> cmd \<times> cmd list" where
  "getCmd act nm st ent pool =
     (let (c, pool') = cmdPool_Get pool;
          c = c\<lparr>action := act, name := nm, setType := st\<rparr>;
          c = (case ent of [] \<Rightarrow> c | e # _ \<Rightarrow> c\<lparr>entry := e\<rparr>)
      in (c, pool'))"

text \<open>\<open>putCmd\<close>: \<open>c.out = c.out[:0]\<close> empties the buffer, then the instance goes back.\<close>

definition putCmd :: "cmd \<Rightarrow> cmd list \<Rightarrow> cmd list" where
  "putCmd c pool = c\<lparr>out := []\<rparr> # pool"

subsection \<open>The argument compiler\<close>

text \<open>The statement \<open>if cond { args = append(args, toks...) }\<close>.\<close>

definition append_when :: "bool \<Rightarrow> string list \<Rightarrow> string list \<Rightarrow> string list" where
  "append_when cond toks args = (if cond then args @ toks else args)"

text \<open>
  \<open>appendArgs\<close>. The timeout value is \<open>uint64(o.timeout.Seconds())\<close>, a float64
  computation of the standard library; it is the parameter \<open>secs\<close>, so that nothing
  below depends on how it rounds. The deferred \<open>releaseOptions\<close> runs at the return.
\<close>

definition appendArgs ::
  "(64 word \<Rightarrow> nat) \<Rightarrow> cmd \<Rightarrow> string list \<Rightarrow> Option list \<Rightarrow> options list
     \<Rightarrow> string list \<times> options list" where
  "appendArgs secs c args opts pool =
    (let (o0, pool') = acquireOptions pool;
         opt = apply_opts o0 opts;
         args = append_when (0 <s timeout opt \<and> needTimeout c)
                  [o_timeout, i2str (secs (timeout opt))] args;
         args = append_when (exist opt \<and> needExist c) [o_exist] args;
         args = append_when (resolve opt \<and> needResolve c) [o_resolve] args;
         args = append_when (counters opt \<and> needCounters c) [o_counters] args;
         args = append_when (0 < countersPackets opt \<and> onlyAdd c)
                  [o_packets, i2str (unat (countersPackets opt))] args;
         args = append_when (0 < countersBytes opt \<and> onlyAdd c)
                  [o_bytes, i2str (unat (countersBytes opt))] args;
         args = append_when (comment opt \<and> onlyCreate c) [o_comment] args;
         args = append_when (commentContent opt \<noteq> [] \<and> onlyAdd c)
                  [o_comment, commentContent opt] args;
         args = append_when (skbinfo opt \<and> onlyCreate c) [o_skbinfo] args;
         args = append_when (skbmark opt \<noteq> [] \<and> onlyAdd c) [o_skbmark, skbmark opt] args;
         args = append_when (skbprio opt \<noteq> [] \<and> onlyAdd c) [o_skbprio, skbprio opt] args;
         args = append_when (skbqueue opt \<noteq> 0 \<and> onlyAdd c)
                  [o_skbqueue, i2str (unat (skbqueue opt))] args;
         args = append_when (nomatch opt \<and> needNomatch c) [o_nomatch] args;
         args = append_when (forceadd opt \<and> onlyCreate c) [o_forceadd] args;
         args = append_when (family opt \<noteq> [] \<and> needFamily c) [o_family, family opt] args;
         args = append_when (hashSize opt \<noteq> 0 \<and> needHash c)
                  [o_hashsize, i2str (unat (hashSize opt))] args;
         args = append_when (maxElem opt \<noteq> 0 \<and> needHash c)
                  [o_maxelem, i2str (unat (maxElem opt))] args;
         args = append_when (netmask opt \<noteq> 0 \<and> needNetmask c)
                  [o_netmask, i2str (unat (netmask opt))] args;
         args = append_when (markmask opt \<noteq> 0 \<and> needMarkmask c)
                  [o_markmask, i2str (unat (markmask opt))] args;
         args = append_when (listSize opt \<noteq> 0 \<and> needListSize c)
                  [o_size, i2str (unat (listSize opt))] args;
         args = append_when (ipRange opt \<noteq> [] \<and> needIpRange c) [o_range, ipRange opt] args;
         args = append_when (portRange opt \<noteq> [] \<and> needPortRange c)
                  [o_range, portRange opt] args
     in (args, releaseOptions opt pool'))"

definition buildArgs ::
  "(64 word \<Rightarrow> nat) \<Rightarrow> cmd \<Rightarrow> Option list \<Rightarrow> options list \<Rightarrow> string list \<times> options list" where
  "buildArgs secs c opts pool =
    (let args = [action c, name c];
         args = (if \<not> isTwoArgs c then args @ [entry c] else args)
     in appendArgs secs c args opts pool)"

subsection \<open>Running the tool\<close>

text \<open>
  A Go \<open>error\<close> is represented by its message; \<open>None\<close> is \<open>nil\<close>. The tool run with
  an argument list answers with its combined output and the error of
  \<open>CombinedOutput\<close> (a non-zero exit or a failure to run).
\<close>

type_synonym error = string
type_synonym tool = "string list \<Rightarrow> string \<times> error option"

text \<open>\<open>cmd.exec\<close>: returns the error, the descriptor (with the output kept for list and
  save) and the options pool.\<close>

definition exec ::
  "(64 word \<Rightarrow> nat) \<Rightarrow> tool \<Rightarrow> cmd \<Rightarrow> Option list \<Rightarrow> options list
     \<Rightarrow> error option \<times> cmd \<times> options list" where
  "exec secs run c opts pool =
    (let (args, pool') = buildArgs secs c opts pool;
         (outp, err) = run args
     in if err \<noteq> None then
          (if isTwoArgs c
           then (Some (''ipset: can't '' @ action c @ '' '' @ name c @ '': '' @ outp), c, pool')
           else (Some (''ipset: can't '' @ action c @ '' '' @ name c @ '' '' @ entry c
                         @ '': '' @ outp), c, pool'))
        else if needResolve c then (None, c\<lparr>out := out c @ outp\<rparr>, pool')
        else (None, c, pool'))"

text \<open>The set handle; its fields are \<open>name\<close> and \<open>setType\<close> in the source.\<close>

record set_t =
  set_name :: string
  set_setType :: SetType

text \<open>\<open>bytes.Contains\<close>.\<close>

fun Contains :: "string \<Rightarrow> string \<Rightarrow> bool" where
  "Contains [] sep = (sep = [])"
| "Contains (x # xs) sep = (HasPrefix (x # xs) sep \<or> Contains xs sep)"




text \<open>
  The fixture and the expected messages of \<open>Test_Set_Flush\<close> and \<open>Test_Set_Destroy\<close>,
  whose tool prints \<open>fake error\<close> and exits with status 1. \<open>set.Flush\<close> and
  \<open>set.Destroy\<close> call \<open>flush\<close> and \<open>destroy\<close> of \<open>ipset.go\<close>, which are not modelled;
  these two tests state what they return.
\<close>

definition getSet :: set_t where
  "getSet = \<lparr>set_name = ''test'', set_setType = HashIp\<rparr>"





subsection \<open>The restore streamer\<close>

definition nl :: char where "nl = CHR 0x0A"
definition cr :: char where "cr = CHR 0x0D"

text \<open>Cut the input after its first newline, if it has one.\<close>

fun cut_line :: "string \<Rightarrow> (string \<times> string) option" where
  "cut_line [] = None"
| "cut_line (x # xs) =
     (if x = nl then Some ([x], xs)
      else case cut_line xs of None \<Rightarrow> None | Some (l, r) \<Rightarrow> Some (x # l, r))"

text \<open>
  The buffered reader: the bytes not yet read, and the error the underlying reader gives
  once they are used up (\<open>None\<close> for \<open>io.EOF\<close>).
\<close>

record reader =
  unread :: string
  fails :: "error option"

datatype read_error = EOF | ReadError error

text \<open>\<open>ReadBytes('\n')\<close>: the line with its newline, or what is left together with the
  error that ended the reading.\<close>

definition ReadBytes :: "reader \<Rightarrow> string \<times> read_error option \<times> reader" where
  "ReadBytes br =
     (case cut_line (unread br) of
        Some (l, r) \<Rightarrow> (l, None, br\<lparr>unread := r\<rparr>)
      | None \<Rightarrow> (unread br,
                 Some (case fails br of None \<Rightarrow> EOF | Some e \<Rightarrow> ReadError e),
                 br\<lparr>unread := []\<rparr>))"

text \<open>
  What one \<open>ipset restore\<close> process does with a payload: the errors of \<open>StdinPipe\<close>, of
  the write to the pipe and of closing it, and the output and error of \<open>CombinedOutput\<close>.
  The process is a function of its arguments, of the payloads of the earlier invocations
  and of its own payload.
\<close>

record pipe_run =
  stdinPipeErr :: "error option"
  writeErr :: "error option"
  closeErr :: "error option"
  runOut :: string
  runErr :: "error option"

type_synonym restore_tool = "string list \<Rightarrow> string list \<Rightarrow> string \<Rightarrow> pipe_run"

text \<open>\<open>set.restore\<close>; \<open>hist\<close> are the payloads of the earlier invocations.\<close>

definition restore :: "restore_tool \<Rightarrow> string list \<Rightarrow> string \<Rightarrow> bool list \<Rightarrow> error option" where
  "restore run hist b exist_flag =
    (let args = [v_restore];
         args = (if (case exist_flag of [] \<Rightarrow> False | e # _ \<Rightarrow> e) then args @ [o_exist] else args);
         r = run args hist b
     in case stdinPipeErr r of Some e \<Rightarrow> Some e
        | None \<Rightarrow>
          (case writeErr r of Some e \<Rightarrow> closeErr r
           | None \<Rightarrow>
             (case closeErr r of Some e \<Rightarrow> Some e
              | None \<Rightarrow>
                (case runErr r of Some e \<Rightarrow> Some (runOut r) | None \<Rightarrow> None))))"

text \<open>
  The read loop of \<open>set.Restore\<close>. It carries the buffer \<open>b\<close> and the payloads handed to
  \<open>restore\<close> so far, and ends either by \<open>return\<close> with an error (\<open>Inl\<close>) or by \<open>break\<close>
  with the buffer (\<open>Inr\<close>). \<open>bytes.Buffer.Write\<close> returns no error.
\<close>

function Restore_loop ::
  "restore_tool \<Rightarrow> int \<Rightarrow> bool list \<Rightarrow> reader \<Rightarrow> string \<Rightarrow> string list
     \<Rightarrow> (error + string) \<times> string list" where
  "Restore_loop run maxRestoreSize exist_flag br b sent =
    (case ReadBytes br of
       (bb, Some EOF, br') \<Rightarrow> (Inr b, sent)
     | (bb, Some (ReadError e), br') \<Rightarrow> (Inl e, sent)
     | (bb, None, br') \<Rightarrow>
         if int (length b) + int (length bb) > maxRestoreSize then
           (case restore run sent b exist_flag of
              Some e \<Rightarrow> (Inl e, sent @ [b])
            | None \<Rightarrow> Restore_loop run maxRestoreSize exist_flag br' bb (sent @ [b]))
         else Restore_loop run maxRestoreSize exist_flag br' (b @ bb) sent)"
  by pat_completeness auto

lemma cut_line_shorter: "cut_line xs = Some (l, r) \<Longrightarrow> length r < length xs"
  by (induction xs arbitrary: l) (auto split: if_splits option.splits)

lemma ReadBytes_shorter:
  "ReadBytes br = (bb, None, br') \<Longrightarrow> length (unread br') < length (unread br)"
  by (auto simp: ReadBytes_def split: option.splits dest: cut_line_shorter)

termination Restore_loop
proof (relation "measure (\<lambda>(run, m, ex, br, b, sent). length (unread br))")
  show "wf (measure (\<lambda>(run, m, ex, br, b, sent). length (unread br)))"
    by simp
qed (auto dest: ReadBytes_shorter [OF sym])

declare Restore_loop.simps [simp del]

text \<open>
  \<open>set.Restore\<close>: the loop, the final \<open>restore\<close> of the buffer after \<open>break\<close>, and the
  deferred function that wraps any error with the name and the type of the set. The
  result is the error and the payloads handed to \<open>restore\<close>, in order.
\<close>

definition wrap_restore :: "set_t \<Rightarrow> error \<Rightarrow> error" where
  "wrap_restore s e =
     ''ipset: can't restore to '' @ set_name s @ ''('' @ set_setType s @ ''): '' @ e"

definition Restore ::
  "restore_tool \<Rightarrow> int \<Rightarrow> set_t \<Rightarrow> reader \<Rightarrow> bool list \<Rightarrow> error option \<times> string list" where
  "Restore run maxRestoreSize s r exist_flag =
    (case Restore_loop run maxRestoreSize exist_flag r [] [] of
       (Inl e, sent) \<Rightarrow> (Some (wrap_restore s e), sent)
     | (Inr b, sent) \<Rightarrow>
         (map_option (wrap_restore s) (restore run sent b exist_flag), sent @ [b]))"

text \<open>A reader over a byte string that ends with \<open>io.EOF\<close> (\<open>bytes.NewReader\<close>).\<close>

definition NewReader :: "string \<Rightarrow> reader" where
  "NewReader bs = \<lparr>unread = bs, fails = None\<rparr>"

subsection \<open>The listing parser\<close>

text \<open>
  \<open>strconv.Atoi\<close> on a 64-bit platform: an optional sign and decimal digits. The digits
  are read left to right; a character that is no digit is a syntax error, a value beyond
  \<open>uint64\<close> a range error at the digit where it happens, and a value beyond \<open>int64\<close> a
  range error at the end.
\<close>

datatype NumError = ErrSyntax | ErrRange

definition is_digit :: "char \<Rightarrow> bool" where
  "is_digit ch = (of_char CHR ''0'' \<le> (of_char ch :: nat) \<and> (of_char ch :: nat) \<le> of_char CHR ''9'')"

definition digit_val :: "char \<Rightarrow> int" where
  "digit_val ch = of_char ch - of_char CHR ''0''"

fun ParseUint_loop :: "int \<Rightarrow> string \<Rightarrow> NumError + int" where
  "ParseUint_loop n [] = Inr n"
| "ParseUint_loop n (ch # rest) =
     (if \<not> is_digit ch then Inl ErrSyntax
      else if n * 10 + digit_val ch > 2 ^ 64 - 1 then Inl ErrRange
      else ParseUint_loop (n * 10 + digit_val ch) rest)"

definition Atoi :: "string \<Rightarrow> NumError + int" where
  "Atoi s =
    (case s of
       [] \<Rightarrow> Inl ErrSyntax
     | ch # rest \<Rightarrow>
         (let neg = (ch = CHR ''-'');
              body = (if ch = CHR ''+'' \<or> ch = CHR ''-'' then rest else s)
          in if body = [] then Inl ErrSyntax
             else case ParseUint_loop 0 body of
                    Inl e \<Rightarrow> Inl e
                  | Inr un \<Rightarrow>
                      if \<not> neg \<and> un \<ge> 2 ^ 63 then Inl ErrRange
                      else if neg \<and> un > 2 ^ 63 then Inl ErrRange
                      else Inr (if neg then - un else un)))"

text \<open>\<open>strings.LastIndexByte\<close>: the index of the last occurrence, or \<open>-1\<close>.\<close>

definition LastIndexByte :: "string \<Rightarrow> char \<Rightarrow> int" where
  "LastIndexByte s ch =
     (if ch \<in> set s then int (length s) - 1 - int (length (takeWhile (\<lambda>x. x \<noteq> ch) (rev s)))
      else - 1)"

text \<open>\<open>getNumber\<close>; without a space the named results are returned as they are, zero and
  \<open>nil\<close>.\<close>

definition getNumber :: "string \<Rightarrow> NumError + int" where
  "getNumber t =
     (let i = LastIndexByte t CHR '' ''
      in if i \<noteq> - 1 then Atoi (drop (nat (i + 1)) t) else Inr 0)"

text \<open>
  \<open>bufio.Scanner\<close> with \<open>ScanLines\<close> over a byte string. A token, with its newline, has to
  fit the buffer of \<open>maxTokenSize\<close> bytes; if it does not, \<open>Scan\<close> records
  \<open>ErrTooLong\<close> and returns false, and the next call hands out the full buffer as a last
  token. \<open>buf\<close> holds the bytes not yet consumed, and after the error the buffer.
\<close>

record Scanner =
  buf :: string
  tooLong :: bool

definition maxTokenSize :: nat where "maxTokenSize = 64 * 1024"

definition dropCR :: "string \<Rightarrow> string" where
  "dropCR d = (if d \<noteq> [] \<and> last d = cr then butlast d else d)"

definition Scan :: "Scanner \<Rightarrow> string option \<times> Scanner" where
  "Scan s =
    (if tooLong s then
       (if buf s = [] then (None, s) else (Some (dropCR (buf s)), s\<lparr>buf := []\<rparr>))
     else case cut_line (buf s) of
       Some (l, r) \<Rightarrow>
         if length l \<le> maxTokenSize then (Some (dropCR (butlast l)), s\<lparr>buf := r\<rparr>)
         else (None, s\<lparr>buf := take maxTokenSize (buf s), tooLong := True\<rparr>)
     | None \<Rightarrow>
         if buf s = [] then (None, s)
         else if length (buf s) < maxTokenSize then (Some (dropCR (buf s)), s\<lparr>buf := []\<rparr>)
         else (None, s\<lparr>buf := take maxTokenSize (buf s), tooLong := True\<rparr>))"

definition NewScanner :: "string \<Rightarrow> Scanner" where
  "NewScanner bs = \<lparr>buf = bs, tooLong = False\<rparr>"

record Info =
  Name :: string
  SetType :: SetType
  Revision :: int
  Header :: string
  SizeInMemory :: int
  References :: int
  Entries :: "string list"

definition new_Info :: Info where
  "new_Info = \<lparr>Name = [], SetType = [], Revision = 0, Header = [], SizeInMemory = 0,
     References = 0, Entries = []\<rparr>"

text \<open>
  The outcome of the header loop of \<open>parseInfo\<close>: the slice expression \<open>t[8:]\<close> panics on
  a shorter line, a number that does not parse is returned as an error, and otherwise the
  loop is left for the label \<open>Entries\<close>, at the members marker or at the end of the scan.
\<close>

datatype 'a outcome = Panic | Failed NumError | Done 'a

lemma Scan_shorter:
  assumes "Scan s = (Some t, s')"
  shows "length (buf s') < length (buf s)"
proof (cases "cut_line (buf s)")
  case None
  with assms show ?thesis
    by (auto simp: Scan_def split: if_splits)
next
  case (Some p)
  obtain l r where p: "p = (l, r)"
    by (cases p)
  from Some p have "length r < length (buf s)"
    using cut_line_shorter [of "buf s" l r] by simp
  with Some p assms show ?thesis
    by (auto simp: Scan_def split: if_splits)
qed

function header_loop :: "Scanner \<Rightarrow> Info \<Rightarrow> (Scanner \<times> Info) outcome" where
  "header_loop s info =
    (case Scan s of
       (None, s') \<Rightarrow> Done (s', info)
     | (Some t, s') \<Rightarrow>
         if HasPrefix t ''Rev'' then
           (case getNumber t of
              Inl e \<Rightarrow> Failed e
            | Inr n \<Rightarrow> header_loop s' (info\<lparr>Revision := n\<rparr>))
         else if HasPrefix t ''H'' then
           (if length t < 8 then Panic else header_loop s' (info\<lparr>Header := drop 8 t\<rparr>))
         else if HasPrefix t ''S'' then
           (case getNumber t of
              Inl e \<Rightarrow> Failed e
            | Inr n \<Rightarrow> header_loop s' (info\<lparr>SizeInMemory := n\<rparr>))
         else if HasPrefix t ''Ref'' then
           (case getNumber t of
              Inl e \<Rightarrow> Failed e
            | Inr n \<Rightarrow> header_loop s' (info\<lparr>References := n\<rparr>))
         else if HasPrefix t ''M'' then Done (s', info)
         else header_loop s' info)"
  by pat_completeness auto
termination
proof (relation "measure (\<lambda>(s, info). length (buf s))")
  show "wf (measure (\<lambda>(s, info). length (buf s)))"
    by simp
qed (auto dest: Scan_shorter [OF sym])

declare header_loop.simps [simp del]

function entries_loop :: "Scanner \<Rightarrow> Info \<Rightarrow> Info" where
  "entries_loop s info =
    (case Scan s of
       (None, s') \<Rightarrow> info
     | (Some t, s') \<Rightarrow> entries_loop s' (info\<lparr>Entries := Entries info @ [t]\<rparr>))"
  by pat_completeness auto
termination
proof (relation "measure (\<lambda>(s, info). length (buf s))")
  show "wf (measure (\<lambda>(s, info). length (buf s)))"
    by simp
qed (auto dest: Scan_shorter [OF sym])

declare entries_loop.simps [simp del]

definition parseInfo :: "string \<Rightarrow> Info outcome" where
  "parseInfo outp =
    (case header_loop (NewScanner outp) new_Info of
       Panic \<Rightarrow> Panic
     | Failed e \<Rightarrow> Failed e
     | Done (s, info) \<Rightarrow> Done (entries_loop s info))"

text \<open>
  \<open>set.List\<close>. It ends in a panic, in the error of the tool, in a parse error, or with
  the record; the deferred \<open>putCmd\<close> runs in every case.
\<close>

datatype list_result = ListPanic | ListError error | ListParseError NumError | ListInfo Info

definition List ::
  "(64 word \<Rightarrow> nat) \<Rightarrow> tool \<Rightarrow> set_t \<Rightarrow> Option list \<Rightarrow> cmd list \<Rightarrow> options list
     \<Rightarrow> list_result \<times> cmd list \<times> options list" where
  "List secs run s opts cpool opool =
    (let (c, cpool') = getCmd v_list (set_name s) (set_setType s) [] cpool;
         (err, c', opool') = exec secs run c opts opool;
         res = (case err of
                  Some e \<Rightarrow> ListError e
                | None \<Rightarrow>
                    (case parseInfo (out c') of
                       Panic \<Rightarrow> ListPanic
                     | Failed e \<Rightarrow> ListParseError e
                     | Done info \<Rightarrow>
                         ListInfo (info\<lparr>Name := set_name s, SetType := set_setType s\<rparr>)))
     in (res, putCmd c' cpool', opool'))"

text \<open>
  The same compilation read off the table of the design: the categories in their fixed
  order, the guard of each category and the token group it contributes.
\<close>

datatype category =
    CatTimeout | CatExist | CatResolve | CatCounters | CatPackets | CatBytes
  | CatComment | CatCommentContent | CatSkbinfo | CatSkbmark | CatSkbprio | CatSkbqueue
  | CatNomatch | CatForceadd | CatFamily | CatHashsize | CatMaxelem | CatNetmask
  | CatMarkmask | CatListSize | CatIpRange | CatPortRange

definition category_order :: "category list" where
  "category_order = [CatTimeout, CatExist, CatResolve, CatCounters, CatPackets, CatBytes,
     CatComment, CatCommentContent, CatSkbinfo, CatSkbmark, CatSkbprio, CatSkbqueue,
     CatNomatch, CatForceadd, CatFamily, CatHashsize, CatMaxelem, CatNetmask, CatMarkmask,
     CatListSize, CatIpRange, CatPortRange]"

fun flag_of :: "category \<Rightarrow> string" where
  "flag_of CatTimeout = o_timeout"
| "flag_of CatExist = o_exist"
| "flag_of CatResolve = o_resolve"
| "flag_of CatCounters = o_counters"
| "flag_of CatPackets = o_packets"
| "flag_of CatBytes = o_bytes"
| "flag_of CatComment = o_comment"
| "flag_of CatCommentContent = o_comment"
| "flag_of CatSkbinfo = o_skbinfo"
| "flag_of CatSkbmark = o_skbmark"
| "flag_of CatSkbprio = o_skbprio"
| "flag_of CatSkbqueue = o_skbqueue"
| "flag_of CatNomatch = o_nomatch"
| "flag_of CatForceadd = o_forceadd"
| "flag_of CatFamily = o_family"
| "flag_of CatHashsize = o_hashsize"
| "flag_of CatMaxelem = o_maxelem"
| "flag_of CatNetmask = o_netmask"
| "flag_of CatMarkmask = o_markmask"
| "flag_of CatListSize = o_size"
| "flag_of CatIpRange = o_range"
| "flag_of CatPortRange = o_range"

text \<open>The value tokens that follow the flag of a category (none for the pure flags).\<close>

fun value_of :: "(64 word \<Rightarrow> nat) \<Rightarrow> options \<Rightarrow> category \<Rightarrow> string list" where
  "value_of secs opt CatTimeout = [i2str (secs (timeout opt))]"
| "value_of secs opt CatPackets = [i2str (unat (countersPackets opt))]"
| "value_of secs opt CatBytes = [i2str (unat (countersBytes opt))]"
| "value_of secs opt CatCommentContent = [commentContent opt]"
| "value_of secs opt CatSkbmark = [skbmark opt]"
| "value_of secs opt CatSkbprio = [skbprio opt]"
| "value_of secs opt CatSkbqueue = [i2str (unat (skbqueue opt))]"
| "value_of secs opt CatFamily = [family opt]"
| "value_of secs opt CatHashsize = [i2str (unat (hashSize opt))]"
| "value_of secs opt CatMaxelem = [i2str (unat (maxElem opt))]"
| "value_of secs opt CatNetmask = [i2str (unat (netmask opt))]"
| "value_of secs opt CatMarkmask = [i2str (unat (markmask opt))]"
| "value_of secs opt CatListSize = [i2str (unat (listSize opt))]"
| "value_of secs opt CatIpRange = [ipRange opt]"
| "value_of secs opt CatPortRange = [portRange opt]"
| "value_of secs opt _ = []"

text \<open>The field of a category holds a value that the compiler acts on.\<close>

fun is_set :: "options \<Rightarrow> category \<Rightarrow> bool" where
  "is_set opt CatTimeout = (0 <s timeout opt)"
| "is_set opt CatExist = exist opt"
| "is_set opt CatResolve = resolve opt"
| "is_set opt CatCounters = counters opt"
| "is_set opt CatPackets = (countersPackets opt \<noteq> 0)"
| "is_set opt CatBytes = (countersBytes opt \<noteq> 0)"
| "is_set opt CatComment = comment opt"
| "is_set opt CatCommentContent = (commentContent opt \<noteq> [])"
| "is_set opt CatSkbinfo = skbinfo opt"
| "is_set opt CatSkbmark = (skbmark opt \<noteq> [])"
| "is_set opt CatSkbprio = (skbprio opt \<noteq> [])"
| "is_set opt CatSkbqueue = (skbqueue opt \<noteq> 0)"
| "is_set opt CatNomatch = nomatch opt"
| "is_set opt CatForceadd = forceadd opt"
| "is_set opt CatFamily = (family opt \<noteq> [])"
| "is_set opt CatHashsize = (hashSize opt \<noteq> 0)"
| "is_set opt CatMaxelem = (maxElem opt \<noteq> 0)"
| "is_set opt CatNetmask = (netmask opt \<noteq> 0)"
| "is_set opt CatMarkmask = (markmask opt \<noteq> 0)"
| "is_set opt CatListSize = (listSize opt \<noteq> 0)"
| "is_set opt CatIpRange = (ipRange opt \<noteq> [])"
| "is_set opt CatPortRange = (portRange opt \<noteq> [])"

text \<open>
  The applicability matrix as the design states it, one row per category, on the action
  and the set type. The hash family is recognised by the prefix \<open>hash:\<close>.
\<close>

definition hash_family :: "SetType \<Rightarrow> bool" where
  "hash_family st = HasPrefix st ''hash:''"

fun legal :: "category \<Rightarrow> string \<Rightarrow> SetType \<Rightarrow> bool" where
  "legal CatExist a st = (a \<in> {v_create, v_add, v_del})"
| "legal CatTimeout a st = (a \<in> {v_create, v_add})"
| "legal CatResolve a st = (a \<in> {v_list, v_save})"
| "legal CatCounters a st = (a = v_create)"
| "legal CatPackets a st = (a = v_add)"
| "legal CatBytes a st = (a = v_add)"
| "legal CatComment a st = (a = v_create)"
| "legal CatCommentContent a st = (a = v_add)"
| "legal CatSkbinfo a st = (a = v_create)"
| "legal CatSkbmark a st = (a = v_add)"
| "legal CatSkbprio a st = (a = v_add)"
| "legal CatSkbqueue a st = (a = v_add)"
| "legal CatNomatch a st = (a = v_add \<and> st \<in> {HashNet, HashNetNet, HashNetPort,
     HashIpPortNet, HashNetPortNet, HashNetIface})"
| "legal CatForceadd a st = (a = v_create)"
| "legal CatFamily a st = (a = v_create \<and> hash_family st \<and> st \<noteq> HashMac)"
| "legal CatHashsize a st = (a = v_create \<and> hash_family st)"
| "legal CatMaxelem a st = (a = v_create \<and> hash_family st)"
| "legal CatNetmask a st = (a = v_create \<and> st \<in> {BitmapIp, HashIp})"
| "legal CatMarkmask a st = (a = v_create \<and> st = HashIpMark)"
| "legal CatListSize a st = (a = v_create \<and> st = ListSet)"
| "legal CatIpRange a st = (a = v_create \<and> st \<in> {BitmapIp, BitmapIpMac})"
| "legal CatPortRange a st = (a = v_create \<and> st = BitmapPort)"

text \<open>The guard the source puts on each category (the \<open>need...\<close> and \<open>only...\<close> methods).\<close>

fun applies :: "cmd \<Rightarrow> category \<Rightarrow> bool" where
  "applies c CatTimeout = needTimeout c"
| "applies c CatExist = needExist c"
| "applies c CatResolve = needResolve c"
| "applies c CatCounters = needCounters c"
| "applies c CatPackets = onlyAdd c"
| "applies c CatBytes = onlyAdd c"
| "applies c CatComment = onlyCreate c"
| "applies c CatCommentContent = onlyAdd c"
| "applies c CatSkbinfo = onlyCreate c"
| "applies c CatSkbmark = onlyAdd c"
| "applies c CatSkbprio = onlyAdd c"
| "applies c CatSkbqueue = onlyAdd c"
| "applies c CatNomatch = needNomatch c"
| "applies c CatForceadd = onlyCreate c"
| "applies c CatFamily = needFamily c"
| "applies c CatHashsize = needHash c"
| "applies c CatMaxelem = needHash c"
| "applies c CatNetmask = needNetmask c"
| "applies c CatMarkmask = needMarkmask c"
| "applies c CatListSize = needListSize c"
| "applies c CatIpRange = needIpRange c"
| "applies c CatPortRange = needPortRange c"

definition group :: "(64 word \<Rightarrow> nat) \<Rightarrow> cmd \<Rightarrow> options \<Rightarrow> category \<Rightarrow> string list" where
  "group secs c opt cat =
     (if is_set opt cat \<and> applies c cat then flag_of cat # value_of secs opt cat else [])"

definition positional :: "cmd \<Rightarrow> string list" where
  "positional c = (if action c \<in> {v_list, v_save, v_destroy, v_flush}
                   then [action c, name c] else [action c, name c, entry c])"

definition ordered_tokens :: "(64 word \<Rightarrow> nat) \<Rightarrow> cmd \<Rightarrow> options \<Rightarrow> string list" where
  "ordered_tokens secs c opt = positional c @ concat (map (group secs c opt) category_order)"

text \<open>The category a modifier belongs to, and its unset sentinel.\<close>

fun category_of :: "Option \<Rightarrow> category" where
  "category_of (Timeout t) = CatTimeout"
| "category_of (Exist b) = CatExist"
| "category_of (Resolve b) = CatResolve"
| "category_of (Comment b) = CatComment"
| "category_of (CommentContent s) = CatCommentContent"
| "category_of (Counters b) = CatCounters"
| "category_of (Packets n) = CatPackets"
| "category_of (Bytes n) = CatBytes"
| "category_of (Skbinfo b) = CatSkbinfo"
| "category_of (Skbmark s) = CatSkbmark"
| "category_of (Skbprio s) = CatSkbprio"
| "category_of (Skbqueue n) = CatSkbqueue"
| "category_of (HashSize n) = CatHashsize"
| "category_of (MaxElem n) = CatMaxelem"
| "category_of (Family f) = CatFamily"
| "category_of (Nomatch b) = CatNomatch"
| "category_of (Forceadd b) = CatForceadd"
| "category_of (Netmask n) = CatNetmask"
| "category_of (Markmask n) = CatMarkmask"
| "category_of (ListSize n) = CatListSize"
| "category_of (IpRange s) = CatIpRange"
| "category_of (PortRange s) = CatPortRange"

fun sentinel :: "Option \<Rightarrow> bool" where
  "sentinel (Timeout t) = (t = 0)"
| "sentinel (Exist b) = (\<not> b)"
| "sentinel (Resolve b) = (\<not> b)"
| "sentinel (Comment b) = (\<not> b)"
| "sentinel (CommentContent s) = (s = [])"
| "sentinel (Counters b) = (\<not> b)"
| "sentinel (Packets n) = (n = 0)"
| "sentinel (Bytes n) = (n = 0)"
| "sentinel (Skbinfo b) = (\<not> b)"
| "sentinel (Skbmark s) = (s = [])"
| "sentinel (Skbprio s) = (s = [])"
| "sentinel (Skbqueue n) = (n = 0)"
| "sentinel (HashSize n) = (n = 0)"
| "sentinel (MaxElem n) = (n = 0)"
| "sentinel (Family f) = (f = [])"
| "sentinel (Nomatch b) = (\<not> b)"
| "sentinel (Forceadd b) = (\<not> b)"
| "sentinel (Netmask n) = (n = 0)"
| "sentinel (Markmask n) = (n = 0)"
| "sentinel (ListSize n) = (n = 0)"
| "sentinel (IpRange s) = (s = [])"
| "sentinel (PortRange s) = (s = [])"

text \<open>A modifier whose value the compiler acts on: a positive duration, or any other
  value that is not the sentinel.\<close>

definition effective :: "Option \<Rightarrow> bool" where
  "effective m = (case m of Timeout t \<Rightarrow> 0 <s t | _ \<Rightarrow> \<not> sentinel m)"

text \<open>Every instance in the pool is in the state \<open>releaseOptions\<close> leaves it in.\<close>

definition pool_clean :: "options list \<Rightarrow> bool" where
  "pool_clean pool = list_all (\<lambda>x. x = new_options) pool"

text \<open>Every descriptor in the pool has the empty output buffer \<open>putCmd\<close> leaves.\<close>

definition cmd_pool_clean :: "cmd list \<Rightarrow> bool" where
  "cmd_pool_clean pool = list_all (\<lambda>c. out c = []) pool"

text \<open>
  The restore process accepts each of the payloads \<open>bs\<close> in turn, after the earlier
  payloads \<open>hist\<close>.
\<close>

fun all_accepted :: "restore_tool \<Rightarrow> bool list \<Rightarrow> string list \<Rightarrow> string list \<Rightarrow> bool" where
  "all_accepted run exist_flag hist [] = True"
| "all_accepted run exist_flag hist (b # bs) =
     (restore run hist b exist_flag = None \<and> all_accepted run exist_flag (hist @ [b]) bs)"

text \<open>
  Lines of a listing. A token lets the header loop go on when its branch of the switch
  neither returns nor panics nor jumps to \<open>Entries\<close>; a header line is a line without a
  newline in it that fits the buffer of the scanner and whose token does so. A numeric
  label is one of the three prefixes whose branch calls \<open>getNumber\<close>.
\<close>

definition passes :: "string \<Rightarrow> bool" where
  "passes t =
     (if HasPrefix t ''Rev'' then \<not> isl (getNumber t)
      else if HasPrefix t ''H'' then 8 \<le> length t
      else if HasPrefix t ''S'' then \<not> isl (getNumber t)
      else if HasPrefix t ''Ref'' then \<not> isl (getNumber t)
      else \<not> HasPrefix t ''M'')"

definition header_line :: "string \<Rightarrow> bool" where
  "header_line l = (nl \<notin> set l \<and> length l < maxTokenSize \<and> passes (dropCR l))"

definition numeric_label :: "string \<Rightarrow> bool" where
  "numeric_label t = (HasPrefix t ''Rev'' \<or> HasPrefix t ''S'' \<or> HasPrefix t ''Ref'')"

fun join_lines :: "string list \<Rightarrow> string" where
  "join_lines [] = []"
| "join_lines (l # ls) = l @ nl # join_lines ls"

text \<open>
  Every complete line of the input, counted with its newline, is at most \<open>mx\<close> bytes
  long; \<open>cur\<close> is the number of bytes of the current line already passed.
\<close>

fun lines_fit :: "int \<Rightarrow> nat \<Rightarrow> string \<Rightarrow> bool" where
  "lines_fit mx cur [] = True"
| "lines_fit mx cur (x # xs) =
     (if x = nl then int (Suc cur) \<le> mx \<and> lines_fit mx 0 xs else lines_fit mx (Suc cur) xs)"

subsection \<open>Fixtures\<close>

text \<open>
  The stand-ins the examples run on: a tool that answers every argument list with the
  same output and error (as \<open>fakeExecCommand\<close> of the tests does), a restore process
  that accepts every payload, one that rejects every payload with a fixed output, and the
  whole seconds of a duration by integer division.
\<close>

definition fakeExecCommand :: "string \<Rightarrow> error option \<Rightarrow> tool" where
  "fakeExecCommand outp err args = (outp, err)"

definition accepting :: restore_tool where
  "accepting args hist b =
     \<lparr>stdinPipeErr = None, writeErr = None, closeErr = None, runOut = [], runErr = None\<rparr>"

definition rejecting :: "string \<Rightarrow> restore_tool" where
  "rejecting outp args hist b =
     \<lparr>stdinPipeErr = None, writeErr = None, closeErr = None, runOut = outp,
      runErr = Some ''exit status 1''\<rparr>"

definition whole_seconds :: "64 word \<Rightarrow> nat" where
  "whole_seconds d = nat (sint d div 1000000000)"

section \<open>Properties\<close>

lemmas verb_defs = v_create_def v_add_def v_del_def v_test_def v_destroy_def v_list_def
  v_save_def v_restore_def v_flush_def v_rename_def v_swap_def

lemmas flag_defs = o_exist_def o_resolve_def o_timeout_def o_counters_def o_packets_def
  o_bytes_def o_comment_def o_skbinfo_def o_skbmark_def o_skbprio_def o_skbqueue_def
  o_nomatch_def o_forceadd_def o_family_def o_hashsize_def o_maxelem_def o_netmask_def
  o_markmask_def o_size_def o_range_def

lemmas settype_defs = BitmapIp_def BitmapIpMac_def BitmapPort_def HashIp_def HashMac_def
  HashIpMac_def HashNet_def HashNetNet_def HashIpPort_def HashNetPort_def HashIpPortIp_def
  HashIpPortNet_def HashIpMark_def HashNetPortNet_def HashNetIface_def ListSet_def

lemmas need_defs = isTwoArgs_def needExist_def needTimeout_def needResolve_def
  needCounters_def onlyAdd_def onlyCreate_def needNomatch_def needFamily_def needHash_def
  needNetmask_def needMarkmask_def needListSize_def needIpRange_def needPortRange_def

subsection \<open>The reuse pools\<close>

text \<open>
  C7 (as amended). \<open>releaseOptions\<close> resets all twenty-two fields, so a modifier set that
  is released and taken again is the zero value. \<open>putCmd\<close> resets the output buffer
  only: a descriptor that is released and taken again keeps its action, name, entry and
  set type, and \<open>getCmd\<close> overwrites action, name and set type, and the entry when it is
  given one.
\<close>

theorem pools_reset_on_release:
  "fst (acquireOptions (releaseOptions opt pool)) = new_options \<and>
   fst (cmdPool_Get (putCmd c cpool)) = c\<lparr>out := []\<rparr> \<and>
   getCmd a n st (e # es) (putCmd c cpool) =
     (\<lparr>action = a, name = n, entry = e, setType = st, out = []\<rparr>, cpool)"
  by (simp add: acquireOptions_def releaseOptions_def new_options_def cmdPool_Get_def
        putCmd_def getCmd_def)

text \<open>
  A descriptor used for \<open>add foo 1.1.1.1\<close> comes back from the pool with these three
  strings still in it; it is not the zero descriptor.
\<close>

theorem putCmd_keeps_fields:
  "fst (cmdPool_Get (putCmd \<lparr>action = ''add'', name = ''foo'', entry = ''1.1.1.1'',
                             setType = HashIp, out = ''x''\<rparr> []))
     = \<lparr>action = ''add'', name = ''foo'', entry = ''1.1.1.1'', setType = HashIp, out = []\<rparr>
   \<and> fst (cmdPool_Get (putCmd \<lparr>action = ''add'', name = ''foo'', entry = ''1.1.1.1'',
                                setType = HashIp, out = ''x''\<rparr> []))
     \<noteq> new_cmd"
  by (simp add: cmdPool_Get_def putCmd_def new_cmd_def)

subsection \<open>The membership test\<close>

text \<open>\<open>Contains\<close> holds exactly when the separator occurs in the string.\<close>

lemma Contains_iff: "Contains s sep \<longleftrightarrow> (\<exists>p q. s = p @ sep @ q)"
proof (induction s)
  case Nil
  then show ?case by simp
next
  case (Cons x xs)
  have "HasPrefix (x # xs) sep \<longleftrightarrow> (\<exists>q. x # xs = sep @ q)"
    unfolding HasPrefix_def by (metis append_eq_conv_conj)
  moreover have "(\<exists>p q. x # xs = p @ sep @ q) \<longleftrightarrow>
      (\<exists>q. x # xs = sep @ q) \<or> (\<exists>p q. xs = p @ sep @ q)"
    (is "?L \<longleftrightarrow> ?A \<or> ?B")
  proof
    assume ?L
    then obtain p q where pq: "x # xs = p @ sep @ q" by blast
    show "?A \<or> ?B"
    proof (cases p)
      case Nil
      with pq show ?thesis by auto
    next
      case (Cons y ys)
      with pq have "xs = ys @ sep @ q" by simp
      then show ?thesis by blast
    qed
  next
    assume "?A \<or> ?B"
    then show ?L
    proof
      assume ?A
      then obtain q where "x # xs = [] @ sep @ q" by auto
      then show ?L by blast
    next
      assume ?B
      then obtain p q where "xs = p @ sep @ q" by blast
      then have "x # xs = (x # p) @ sep @ q" by simp
      then show ?L by blast
    qed
  qed
  ultimately show ?case using Cons.IH by simp
qed



subsection \<open>Failure messages\<close>









subsection \<open>The argument compiler\<close>

text \<open>The tokens \<open>appendArgs\<close> adds are the groups of the categories, in the fixed order.\<close>

lemma append_when_eq: "append_when cond toks args = args @ (if cond then toks else [])"
  by (simp add: append_when_def)

lemma appendArgs_tokens:
  "fst (appendArgs secs c args opts pool) =
     args @ concat (map (group secs c (apply_opts (fst (acquireOptions pool)) opts)) category_order)"
  by (simp add: appendArgs_def Let_def split_beta append_when_eq group_def category_order_def
        word_neq_0_conv [symmetric] split del: if_split cong del: if_weak_cong)

lemma appendArgs_pool:
  "snd (appendArgs secs c args opts pool) =
     releaseOptions (apply_opts (fst (acquireOptions pool)) opts) (snd (acquireOptions pool))"
  by (simp add: appendArgs_def Let_def split_beta)

lemma acquire_clean: "pool_clean pool \<Longrightarrow> fst (acquireOptions pool) = new_options"
  by (cases pool) (simp_all add: acquireOptions_def pool_clean_def)

lemma acquire_clean_rest: "pool_clean pool \<Longrightarrow> pool_clean (snd (acquireOptions pool))"
  by (cases pool) (simp_all add: acquireOptions_def pool_clean_def)

lemma release_clean: "pool_clean pool \<Longrightarrow> pool_clean (releaseOptions opt pool)"
  by (simp add: releaseOptions_def pool_clean_def new_options_def)

lemma appendArgs_keeps_pool_clean:
  "pool_clean pool \<Longrightarrow> pool_clean (snd (appendArgs secs c args opts pool))"
  by (simp add: appendArgs_pool release_clean acquire_clean_rest)


text \<open>
  C2. \<open>buildArgs\<close> emits the positional tokens first, the action and the name for list,
  save, destroy and flush and the action, the name and the entry for every other action,
  and then the flag tokens of the categories in the fixed order timeout, exist, resolve,
  counters, packets, bytes, comment flag, comment content, skbinfo, skbmark, skbprio,
  skbqueue, nomatch, forceadd, family, hashsize, maxelem, netmask, markmask, list size,
  ip range, port range.
\<close>

theorem buildArgs_order:
  assumes "pool_clean pool"
  shows "fst (buildArgs secs c opts pool) =
           (if action c \<in> {v_list, v_save, v_destroy, v_flush}
            then [action c, name c] else [action c, name c, entry c])
           @ concat (map (group secs c (apply_opts new_options opts)) category_order)"
  using assms
  by (simp add: buildArgs_def Let_def appendArgs_tokens acquire_clean isTwoArgs_def)

theorem buildArgs_order_witness:
  "pool_clean [] \<and>
   fst (buildArgs whole_seconds
          \<lparr>action = v_add, name = ''test'', entry = ''1.1.1.1'', setType = HashIp, out = []\<rparr>
          [CommentContent ''dns'', Exist True] [])
     = [''add'', ''test'', ''1.1.1.1'', ''-exist'', ''comment'', ''dns'']"
proof -
  have p: "pool_clean []" by (simp add: pool_clean_def)
  have "fst (buildArgs whole_seconds
          \<lparr>action = v_add, name = ''test'', entry = ''1.1.1.1'', setType = HashIp, out = []\<rparr>
          [CommentContent ''dns'', Exist True] [])
     = [''add'', ''test'', ''1.1.1.1'', ''-exist'', ''comment'', ''dns'']"
    unfolding buildArgs_order [OF p]
    by (simp add: category_order_def group_def new_options_def need_defs verb_defs
        o_exist_def o_comment_def)
  with p show ?thesis by (rule conjI)
qed

text \<open>
  On the sixteen set types the prefix test of the source and the rows of the matrix
  agree, for every action; a single modifier fills the group of its own category only.
\<close>

lemma hash_prefix_on_registry:
  "st \<in> set testSetTypes \<Longrightarrow> HasPrefix st ''hash'' = hash_family st"
  by (auto simp: testSetTypes_def settype_defs HasPrefix_def hash_family_def)

lemma applies_legal:
  "setType c \<in> set testSetTypes \<Longrightarrow> applies c cat = legal cat (action c) (setType c)"
  by (cases cat) (auto simp: need_defs hash_prefix_on_registry)

text \<open>For any modifier set, a category contributes tokens exactly when its row holds and
  its field is set.\<close>

lemma group_nonempty_iff:
  "setType c \<in> set testSetTypes \<Longrightarrow>
   group secs c opt cat \<noteq> [] \<longleftrightarrow> legal cat (action c) (setType c) \<and> is_set opt cat"
  by (auto simp: group_def applies_legal)

lemma all_categories: "cat \<in> set category_order"
  by (cases cat) (simp_all add: category_order_def)

lemma is_set_single:
  "is_set (run_Option m new_options) cat \<longleftrightarrow> cat = category_of m \<and> effective m"
  by (cases m; cases cat) (simp_all add: new_options_def effective_def)

lemma group_single:
  "group secs c (run_Option m new_options) cat =
     (if cat = category_of m \<and> effective m \<and> applies c cat
      then flag_of cat # value_of secs (run_Option m new_options) cat else [])"
  by (simp add: group_def is_set_single)

lemma tokens_single:
  "concat (map (group secs c (run_Option m new_options)) cats) =
     (if effective m \<and> applies c (category_of m)
      then concat (map (\<lambda>cat. if cat = category_of m
             then flag_of cat # value_of secs (run_Option m new_options) cat else []) cats)
      else [])"
  by (induction cats) (auto simp: group_single)

lemma flag_in_single:
  "flag_of k \<in> set (concat (map (\<lambda>cat. if cat = k then flag_of cat # vs cat else []) cats))
     \<longleftrightarrow> k \<in> set cats"
  by (induction cats) auto

lemma sentinel_not_effective: "sentinel m \<Longrightarrow> \<not> effective m"
  by (cases m) (simp_all add: effective_def)


text \<open>
  C1 (as amended). For every action, every one of the sixteen set types and every
  modifier, the tokens compiled from that one modifier contain the flag of its category
  if and only if the row of the matrix holds for the action and the set type and the
  value is acted on: a duration greater than zero, and for every other modifier a value
  that is not the sentinel. A sentinel never is, and a modifier that is not acted on
  adds no token.
\<close>

theorem single_modifier_flag:
  assumes "pool_clean pool" and "st \<in> set testSetTypes"
  shows "(flag_of (category_of m) \<in>
            set (fst (appendArgs secs \<lparr>action = a, name = n, entry = e, setType = st, out = ob\<rparr>
                        [] [m] pool))
          \<longleftrightarrow> legal (category_of m) a st \<and> effective m)
       \<and> (sentinel m \<longrightarrow> \<not> effective m)
       \<and> (\<not> effective m \<longrightarrow>
            fst (appendArgs secs \<lparr>action = a, name = n, entry = e, setType = st, out = ob\<rparr>
                   args [m] pool) = args)"
  using assms
  by (auto simp: appendArgs_tokens acquire_clean tokens_single flag_in_single all_categories
        applies_legal sentinel_not_effective)

theorem single_modifier_flag_witness:
  "pool_clean [] \<and> HashNet \<in> set testSetTypes \<and>
   flag_of (category_of (Nomatch True)) \<in>
     set (fst (appendArgs whole_seconds
            \<lparr>action = v_add, name = ''test'', entry = ''10.0.0.0/8'', setType = HashNet, out = []\<rparr>
            [] [Nomatch True] []))"
proof -
  have p: "pool_clean []" by (simp add: pool_clean_def)
  have t: "HashNet \<in> set testSetTypes" by (simp add: testSetTypes_def)
  have l: "legal (category_of (Nomatch True)) v_add HashNet \<and> effective (Nomatch True)"
    by (simp add: effective_def)
  from single_modifier_flag [OF p t, where m = "Nomatch True" and a = v_add] l p t
  show ?thesis by blast
qed


text \<open>
  A negative duration is not the zero duration, and create takes a timeout, yet
  \<open>Timeout(-time.Second)\<close> compiles to no token: the source tests \<open>o.timeout > 0\<close>.
\<close>

theorem negative_timeout_dropped:
  "legal (category_of (Timeout (- 1000000000))) v_create HashIp \<and>
   \<not> sentinel (Timeout (- 1000000000)) \<and>
   flag_of (category_of (Timeout (- 1000000000))) \<notin>
     set (fst (appendArgs whole_seconds
            \<lparr>action = v_create, name = ''test'', entry = HashIp, setType = HashIp, out = []\<rparr>
            [] [Timeout (- 1000000000)] []))"
proof -
  have ne: "\<not> effective (Timeout (- 1000000000))"
    by (simp add: effective_def word_sless_alt)
  have "fst (appendArgs whole_seconds
            \<lparr>action = v_create, name = ''test'', entry = HashIp, setType = HashIp, out = []\<rparr>
            [] [Timeout (- 1000000000)] []) = []"
    unfolding appendArgs_tokens acquireOptions_def
    using ne by (simp only: list.case fst_conv apply_opts.simps tokens_single) simp
  then show ?thesis
    by (simp add: v_create_def)
qed

subsection \<open>The restore streamer\<close>

text \<open>What \<open>cut_line\<close> returns, and one round of the read loop on a reader without errors.\<close>

lemma cut_line_None: "cut_line xs = None \<longleftrightarrow> nl \<notin> set xs"
  by (induction xs) (auto split: option.splits)

lemma cut_line_Some:
  "cut_line xs = Some (l, r) \<Longrightarrow> xs = l @ r \<and> l \<noteq> [] \<and> last l = nl \<and> nl \<notin> set (butlast l)"
  by (induction xs arbitrary: l) (auto split: if_splits option.splits)

lemma cut_line_append:
  "cut_line xs = Some (l, r) \<Longrightarrow> cut_line (xs @ t) = Some (l, r @ t)"
  by (induction xs arbitrary: l) (auto split: if_splits option.splits)

lemma cut_line_line: "nl \<notin> set l \<Longrightarrow> cut_line (l @ nl # r) = Some (l @ [nl], r)"
  by (induction l) auto

lemma Restore_loop_step:
  "Restore_loop run mx ex (NewReader xs) b sent =
     (case cut_line xs of
        None \<Rightarrow> (Inr b, sent)
      | Some (l, r) \<Rightarrow>
          if int (length b) + int (length l) > mx then
            (case restore run sent b ex of
               Some e \<Rightarrow> (Inl e, sent @ [b])
             | None \<Rightarrow> Restore_loop run mx ex (NewReader r) l (sent @ [b]))
          else Restore_loop run mx ex (NewReader r) (b @ l) sent)"
  by (subst Restore_loop.simps) (simp add: ReadBytes_def NewReader_def split: option.splits)

lemma terminated_empty:
  "xs = [] \<or> last xs = nl \<Longrightarrow> nl \<notin> set xs \<Longrightarrow> xs = []"
  by (metis last_in_set)

lemma terminated_rest:
  assumes "cut_line xs = Some (l, r)" and "xs = [] \<or> last xs = nl"
  shows "r = [] \<or> last r = nl"
  using assms cut_line_Some [OF assms(1)] by (cases "r = []") auto

lemma Restore_loop_tail:
  assumes "nl \<notin> set t"
  shows "xs = [] \<or> last xs = nl \<Longrightarrow>
     Restore_loop run mx ex (NewReader (xs @ t)) b sent = Restore_loop run mx ex (NewReader xs) b sent"
proof (induction "length xs" arbitrary: xs b sent rule: less_induct)
  case less
  show ?case
  proof (cases "cut_line xs")
    case None
    then have "nl \<notin> set xs" by (simp add: cut_line_None)
    with less.prems have "xs = []" by (rule terminated_empty)
    moreover have "cut_line t = None" using assms by (simp add: cut_line_None)
    ultimately show ?thesis
      by (simp add: Restore_loop_step [of _ _ _ t] Restore_loop_step [of _ _ _ "[]"])
  next
    case (Some p)
    obtain l r where p: "p = (l, r)" by (cases p)
    from Some p have c: "cut_line xs = Some (l, r)" by simp
    have shorter: "length r < length xs" using cut_line_shorter [OF c] .
    have tm: "r = [] \<or> last r = nl" using terminated_rest [OF c less.prems] .
    have c': "cut_line (xs @ t) = Some (l, r @ t)" using cut_line_append [OF c] .
    show ?thesis
      by (simp add: Restore_loop_step [of _ _ _ "xs @ t"] Restore_loop_step [of _ _ _ xs] c c'
          less.hyps [OF shorter tm] split: option.splits)
  qed
qed

lemma all_accepted_snoc:
  "all_accepted run ex h (bs @ [b]) \<longleftrightarrow>
     all_accepted run ex h bs \<and> restore run (h @ bs) b ex = None"
  by (induction bs arbitrary: h) auto

lemma Restore_loop_inv:
  "xs = [] \<or> last xs = nl \<Longrightarrow> all_accepted run ex [] sent \<Longrightarrow>
   Restore_loop run mx ex (NewReader xs) b sent = (res, sent') \<Longrightarrow>
   (case res of
      Inr b' \<Rightarrow> all_accepted run ex [] sent' \<and> concat sent' @ b' = concat sent @ b @ xs
    | Inl e \<Rightarrow> sent' \<noteq> [] \<and> all_accepted run ex [] (butlast sent') \<and>
               restore run (butlast sent') (last sent') ex = Some e \<and>
               (\<exists>rest. concat sent @ b @ xs = concat sent' @ rest))"
proof (induction "length xs" arbitrary: xs b sent rule: less_induct)
  case less
  show ?case
  proof (cases "cut_line xs")
    case None
    then have "nl \<notin> set xs" by (simp add: cut_line_None)
    with less.prems(1) have "xs = []" by (rule terminated_empty)
    with less.prems None show ?thesis
      by (auto simp: Restore_loop_step [of _ _ _ "[]"])
  next
    case (Some p)
    obtain l r where p: "p = (l, r)" by (cases p)
    from Some p have c: "cut_line xs = Some (l, r)" by simp
    have shorter: "length r < length xs" using cut_line_shorter [OF c] .
    have tm: "r = [] \<or> last r = nl" using terminated_rest [OF c less.prems(1)] .
    have xs: "xs = l @ r" using cut_line_Some [OF c] by simp
    show ?thesis
    proof (cases "int (length b) + int (length l) > mx")
      case False
      with less.prems(3) c
      have "Restore_loop run mx ex (NewReader r) (b @ l) sent = (res, sent')"
        by (simp add: Restore_loop_step [of _ _ _ xs])
      from less.hyps [OF shorter tm less.prems(2) this] show ?thesis
        by (cases res) (simp_all add: xs)
    next
      case True
      show ?thesis
      proof (cases "restore run sent b ex")
        case (Some e)
        with True less.prems c show ?thesis
          by (auto simp: Restore_loop_step [of _ _ _ xs])
      next
        case None
        with True less.prems(3) c
        have loop: "Restore_loop run mx ex (NewReader r) l (sent @ [b]) = (res, sent')"
          by (simp add: Restore_loop_step [of _ _ _ xs])
        have acc: "all_accepted run ex [] (sent @ [b])"
          using less.prems(2) None by (simp add: all_accepted_snoc)
        from less.hyps [OF shorter tm acc loop] show ?thesis
          by (cases res) (simp_all add: xs)
      qed
    qed
  qed
qed

text \<open>
  The streamer on a stream of complete lines: there is at least one invocation, all
  invocations but the last were accepted, the result is the wrapped answer of the last
  one, the payloads are a prefix of the stream in order, and on success they are the
  whole stream.
\<close>

lemma Restore_inv:
  assumes "bs = [] \<or> last bs = nl" and "Restore run mx s (NewReader bs) ex = (err, sent)"
  shows "sent \<noteq> [] \<and> all_accepted run ex [] (butlast sent) \<and>
         err = map_option (wrap_restore s) (restore run (butlast sent) (last sent) ex) \<and>
         (\<exists>rest. bs = concat sent @ rest) \<and>
         (err = None \<longrightarrow> concat sent = bs \<and> all_accepted run ex [] sent)"
proof -
  obtain res sent0 where loop: "Restore_loop run mx ex (NewReader bs) [] [] = (res, sent0)"
    by (cases "Restore_loop run mx ex (NewReader bs) [] []")
  have acc0: "all_accepted run ex [] []" by simp
  note inv = Restore_loop_inv [OF assms(1) acc0 loop]
  show ?thesis
  proof (cases res)
    case (Inl e)
    with inv loop assms(2) show ?thesis
      by (auto simp: Restore_def)
  next
    case (Inr b)
    with inv loop assms(2) show ?thesis
      by (auto simp: Restore_def all_accepted_snoc)
  qed
qed





text \<open>
  C9. Bytes after the last newline change nothing: the result and the payloads are those
  of the stream without them, the payloads are a prefix of the complete lines, and when
  the tool accepts every payload the result is \<open>nil\<close> and exactly the complete lines
  were streamed. For the input \<open>a\<close>, newline, \<open>b\<close> only the first line reaches the
  tool.
\<close>

theorem Restore_drops_partial_line:
  assumes "nl \<notin> set t" and "body = [] \<or> last body = nl"
  shows "Restore run mx s (NewReader (body @ t)) ex = Restore run mx s (NewReader body) ex \<and>
         (\<exists>rest. body = concat (snd (Restore run mx s (NewReader (body @ t)) ex)) @ rest) \<and>
         ((\<forall>h b. restore run h b ex = None) \<longrightarrow>
            fst (Restore run mx s (NewReader (body @ t)) ex) = None \<and>
            concat (snd (Restore run mx s (NewReader (body @ t)) ex)) = body)"
proof -
  have eq: "Restore run mx s (NewReader (body @ t)) ex = Restore run mx s (NewReader body) ex"
    by (simp add: Restore_def Restore_loop_tail [OF assms])
  obtain err sent where r: "Restore run mx s (NewReader body) ex = (err, sent)"
    by (cases "Restore run mx s (NewReader body) ex")
  note inv = Restore_inv [OF assms(2) r]
  show ?thesis
    using eq r inv by auto
qed

theorem Restore_drops_partial_line_witness:
  "nl \<notin> set ''b'' \<and> last ''a\<newline>'' = nl \<and>
   (\<forall>h b. restore accepting h b [] = None) \<and>
   Restore accepting 65536 getSet (NewReader ''a\<newline>b'') [] = (None, [''a\<newline>'']) \<and>
   concat (snd (Restore accepting 65536 getSet (NewReader ''a\<newline>b'') [])) = ''a\<newline>''"
proof -
  have h1: "nl \<notin> set ''b''" by (simp add: nl_def)
  have h2: "''a\<newline>'' = [] \<or> last ''a\<newline>'' = nl" by (simp add: nl_def)
  have h3: "\<forall>h b. restore accepting h b [] = None"
    by (simp add: restore_def accepting_def)
  have ev: "Restore accepting 65536 getSet (NewReader ''a\<newline>'') [] = (None, [''a\<newline>''])"
    by (simp add: Restore_def Restore_loop_step nl_def restore_def accepting_def)
  note inst = Restore_drops_partial_line [OF h1 h2, of accepting 65536 getSet "[]"]
  from inst have "Restore accepting 65536 getSet (NewReader (''a\<newline>'' @ ''b'')) []
          = Restore accepting 65536 getSet (NewReader ''a\<newline>'') []"
    by blast
  moreover from inst h3
  have "concat (snd (Restore accepting 65536 getSet (NewReader (''a\<newline>'' @ ''b'')) []))
          = ''a\<newline>''"
    by blast
  ultimately show ?thesis
    using ev h1 h2 h3 by simp
qed

text \<open>
  C4 does not hold of the code: a line longer than the maximum is handed over whole. With
  the maximum 10 and one line of 13 bytes the streamer first sends the empty buffer and
  then the 13 bytes in one payload. The same happens for every maximum and every line
  that exceeds it.
\<close>

theorem Restore_oversized_line:
  "Restore accepting 10 getSet (NewReader ''0123456789ab\<newline>'') []
     = (None, [[], ''0123456789ab\<newline>'']) \<and>
   length ''0123456789ab\<newline>'' = 13"
  by (simp add: Restore_def Restore_loop_step nl_def restore_def accepting_def)

lemma oversized_line_sent_whole:
  assumes "nl \<notin> set l" and "int (length l) + 1 > mx" and "restore run [] [] ex = None"
  shows "snd (Restore run mx s (NewReader (l @ [nl])) ex) = [[], l @ [nl]]"
proof -
  have "Restore_loop run mx ex (NewReader (l @ [nl])) [] [] = (Inr (l @ [nl]), [[]])"
    using assms
    by (simp add: Restore_loop_step [of _ _ _ "l @ [nl]"] Restore_loop_step [of _ _ _ "[]"]
          cut_line_line)
  then show ?thesis
    by (simp add: Restore_def)
qed

text \<open>
  When the maximum is not negative and every complete line fits it, every payload does:
  the bound fails on oversized lines only.
\<close>

lemma lines_fit_cut:
  "cut_line xs = Some (l, r) \<Longrightarrow>
   lines_fit mx cur xs = (int (cur + length l) \<le> mx \<and> lines_fit mx 0 r)"
  by (induction xs arbitrary: cur l) (auto split: if_splits option.splits)

lemma Restore_loop_bounded:
  "lines_fit mx 0 xs \<Longrightarrow> int (length b) \<le> mx \<Longrightarrow> \<forall>p\<in>set sent. int (length p) \<le> mx \<Longrightarrow>
   Restore_loop run mx ex (NewReader xs) b sent = (res, sent') \<Longrightarrow>
   (\<forall>p\<in>set sent'. int (length p) \<le> mx) \<and> (\<forall>b'. res = Inr b' \<longrightarrow> int (length b') \<le> mx)"
proof (induction "length xs" arbitrary: xs b sent rule: less_induct)
  case less
  show ?case
  proof (cases "cut_line xs")
    case None
    with less.prems show ?thesis
      by (auto simp: Restore_loop_step [of _ _ _ xs])
  next
    case (Some p)
    obtain l r where p: "p = (l, r)" by (cases p)
    from Some p have c: "cut_line xs = Some (l, r)" by simp
    have shorter: "length r < length xs" using cut_line_shorter [OF c] .
    from less.prems(1) have fit: "int (length l) \<le> mx" "lines_fit mx 0 r"
      by (simp_all add: lines_fit_cut [OF c])
    show ?thesis
    proof (cases "int (length b) + int (length l) > mx")
      case False
      with less.prems(4) c
      have "Restore_loop run mx ex (NewReader r) (b @ l) sent = (res, sent')"
        by (simp add: Restore_loop_step [of _ _ _ xs])
      moreover have "int (length (b @ l)) \<le> mx" using False by simp
      ultimately show ?thesis
        using less.hyps [OF shorter fit(2) _ less.prems(3)] by blast
    next
      case True
      have sent1: "\<forall>p\<in>set (sent @ [b]). int (length p) \<le> mx"
        using less.prems(2,3) by simp
      show ?thesis
      proof (cases "restore run sent b ex")
        case (Some e)
        with True less.prems(4) c sent1 show ?thesis
          by (auto simp: Restore_loop_step [of _ _ _ xs])
      next
        case None
        with True less.prems(4) c
        have "Restore_loop run mx ex (NewReader r) l (sent @ [b]) = (res, sent')"
          by (simp add: Restore_loop_step [of _ _ _ xs])
        then show ?thesis
          using less.hyps [OF shorter fit(2) fit(1) sent1] by blast
      qed
    qed
  qed
qed

lemma Restore_bounded:
  assumes "0 \<le> mx" and "lines_fit mx 0 bs"
  shows "\<forall>p\<in>set (snd (Restore run mx s (NewReader bs) ex)). int (length p) \<le> mx"
proof -
  obtain res sent where loop: "Restore_loop run mx ex (NewReader bs) [] [] = (res, sent)"
    by (cases "Restore_loop run mx ex (NewReader bs) [] []")
  have "(\<forall>p\<in>set sent. int (length p) \<le> mx) \<and> (\<forall>b'. res = Inr b' \<longrightarrow> int (length b') \<le> mx)"
    using Restore_loop_bounded [OF assms(2) _ _ loop] assms(1) by simp
  then show ?thesis
    using loop by (cases res) (auto simp: Restore_def)
qed

subsection \<open>The listing parser\<close>

text \<open>
  One call of \<open>Scan\<close> on a line, and the header loop over lines that let it go on: it
  arrives at the line after them. The prefixes of the switch exclude each other, but for
  \<open>Rev\<close> no branch is shadowed by an earlier one.
\<close>

lemma Scan_line:
  assumes "nl \<notin> set l" and "length l < maxTokenSize"
  shows "Scan \<lparr>buf = l @ nl # x, tooLong = False\<rparr> = (Some (dropCR l), \<lparr>buf = x, tooLong = False\<rparr>)"
  using assms by (simp add: Scan_def cut_line_line)

lemma Scan_last_line:
  assumes "nl \<notin> set l" and "length l < maxTokenSize" and "l \<noteq> []"
  shows "Scan \<lparr>buf = l, tooLong = False\<rparr> = (Some (dropCR l), \<lparr>buf = [], tooLong = False\<rparr>)"
proof -
  have "cut_line l = None" using assms(1) by (simp add: cut_line_None)
  with assms show ?thesis by (simp add: Scan_def)
qed

lemma Scan_next:
  assumes "nl \<notin> set l" and "length l < maxTokenSize" and "l \<noteq> []"
    and "rest = [] \<or> hd rest = nl"
  shows "\<exists>s'. Scan \<lparr>buf = l @ rest, tooLong = False\<rparr> = (Some (dropCR l), s')"
proof (cases rest)
  case Nil
  with Scan_last_line [OF assms(1-3)] show ?thesis by simp
next
  case (Cons x xs)
  with assms(4) have "rest = nl # xs" by simp
  with Scan_line [OF assms(1,2)] show ?thesis by simp
qed

lemma prefix_clash: "HasPrefix t (c # p) \<Longrightarrow> HasPrefix t (d # q) \<Longrightarrow> c = d"
  by (cases t) (auto simp: HasPrefix_def)

lemma H_not_numeric:
  assumes "HasPrefix t ''H''"
  shows "\<not> HasPrefix t ''Rev''" and "\<not> HasPrefix t ''S''" and "\<not> HasPrefix t ''Ref''"
  using prefix_clash [OF assms] by fastforce+

lemma Ref_not_Rev: "HasPrefix t ''Ref'' \<Longrightarrow> \<not> HasPrefix t ''Rev''"
  by (auto simp: HasPrefix_def)

lemma S_not_Rev: "HasPrefix t ''S'' \<Longrightarrow> \<not> HasPrefix t ''Rev''"
  using prefix_clash by fastforce

lemma header_loop_pass:
  assumes "Scan s = (Some t, s')" and "passes t"
  shows "\<exists>info'. header_loop s info = header_loop s' info'"
proof -
  have "header_loop s info =
     (if HasPrefix t ''Rev'' then
        (case getNumber t of Inl e \<Rightarrow> Failed e
         | Inr n \<Rightarrow> header_loop s' (info\<lparr>Revision := n\<rparr>))
      else if HasPrefix t ''H'' then
        (if length t < 8 then Panic else header_loop s' (info\<lparr>Header := drop 8 t\<rparr>))
      else if HasPrefix t ''S'' then
        (case getNumber t of Inl e \<Rightarrow> Failed e
         | Inr n \<Rightarrow> header_loop s' (info\<lparr>SizeInMemory := n\<rparr>))
      else if HasPrefix t ''Ref'' then
        (case getNumber t of Inl e \<Rightarrow> Failed e
         | Inr n \<Rightarrow> header_loop s' (info\<lparr>References := n\<rparr>))
      else if HasPrefix t ''M'' then Done (s', info)
      else header_loop s' info)"
    by (subst header_loop.simps) (simp add: assms(1))
  with assms(2) show ?thesis
    by (cases "getNumber t") (auto simp: passes_def split: if_splits)
qed

lemma header_loop_lines:
  "list_all header_line ls \<Longrightarrow>
   \<exists>info'. header_loop \<lparr>buf = join_lines ls @ x, tooLong = False\<rparr> info
          = header_loop \<lparr>buf = x, tooLong = False\<rparr> info'"
proof (induction ls arbitrary: info)
  case Nil
  then show ?case by auto
next
  case (Cons l ls)
  then have "header_line l" and rest: "list_all header_line ls"
    by simp_all
  then have hl: "nl \<notin> set l" "length l < maxTokenSize" "passes (dropCR l)"
    by (simp_all add: header_line_def)
  have sc: "Scan \<lparr>buf = join_lines (l # ls) @ x, tooLong = False\<rparr>
         = (Some (dropCR l), \<lparr>buf = join_lines ls @ x, tooLong = False\<rparr>)"
    using Scan_line [OF hl(1,2)] by simp
  from header_loop_pass [OF sc hl(3)] obtain info1 where
    "header_loop \<lparr>buf = join_lines (l # ls) @ x, tooLong = False\<rparr> info
       = header_loop \<lparr>buf = join_lines ls @ x, tooLong = False\<rparr> info1"
    by blast
  with Cons.IH [OF rest, of info1] show ?case by auto
qed

lemma header_loop_panics:
  assumes "Scan s = (Some t, s')" and "HasPrefix t ''H''" and "length t < 8"
  shows "header_loop s info = Panic"
  using assms H_not_numeric [OF assms(2)] by (subst header_loop.simps) simp

lemma header_loop_fails:
  assumes "Scan s = (Some t, s')" and "numeric_label t" and "getNumber t = Inl e"
  shows "header_loop s info = Failed e"
proof -
  from assms(2) have noH: "\<not> HasPrefix t ''H''"
    using H_not_numeric [of t] by (auto simp: numeric_label_def)
  show ?thesis
    using assms noH Ref_not_Rev [of t] S_not_Rev [of t]
    by (subst header_loop.simps) (auto simp: numeric_label_def)
qed

lemma dropCR_short_H:
  assumes "HasPrefix t ''H''" and "length t < 8"
  shows "HasPrefix (dropCR t) ''H'' \<and> length (dropCR t) < 8 \<and> t \<noteq> []"
proof -
  from assms(1) obtain t' where t: "t = CHR ''H'' # t'"
    by (cases t) (auto simp: HasPrefix_def)
  show ?thesis
    using assms(2) unfolding t by (cases t' rule: rev_cases) (auto simp: dropCR_def HasPrefix_def cr_def)
qed

lemma parseInfo_panics:
  assumes "list_all header_line ls" and "HasPrefix t ''H''" and "length t < 8"
    and "nl \<notin> set t" and "rest = [] \<or> hd rest = nl"
  shows "parseInfo (join_lines ls @ t @ rest) = Panic"
proof -
  note d = dropCR_short_H [OF assms(2,3)]
  have len: "length t < maxTokenSize" using assms(3) by (simp add: maxTokenSize_def)
  from d have ne: "t \<noteq> []" by simp
  from Scan_next [OF assms(4) len ne assms(5)] obtain s' where
    sc: "Scan \<lparr>buf = t @ rest, tooLong = False\<rparr> = (Some (dropCR t), s')" by blast
  from header_loop_lines [OF assms(1), of "t @ rest" new_Info] obtain info' where
    "header_loop \<lparr>buf = join_lines ls @ t @ rest, tooLong = False\<rparr> new_Info
       = header_loop \<lparr>buf = t @ rest, tooLong = False\<rparr> info'" by blast
  also have "\<dots> = Panic"
    using header_loop_panics [OF sc] d by simp
  finally show ?thesis
    by (simp add: parseInfo_def NewScanner_def)
qed

lemma parseInfo_fails:
  assumes "list_all header_line ls" and "numeric_label (dropCR t)"
    and "getNumber (dropCR t) = Inl e" and "length t < maxTokenSize"
    and "nl \<notin> set t" and "rest = [] \<or> hd rest = nl"
  shows "parseInfo (join_lines ls @ t @ rest) = Failed e"
proof -
  from assms(2) have "dropCR t \<noteq> []"
    by (auto simp: numeric_label_def HasPrefix_def)
  then have ne: "t \<noteq> []" by (auto simp: dropCR_def)
  from Scan_next [OF assms(5,4) ne assms(6)] obtain s' where
    sc: "Scan \<lparr>buf = t @ rest, tooLong = False\<rparr> = (Some (dropCR t), s')" by blast
  from header_loop_lines [OF assms(1), of "t @ rest" new_Info] obtain info' where
    "header_loop \<lparr>buf = join_lines ls @ t @ rest, tooLong = False\<rparr> new_Info
       = header_loop \<lparr>buf = t @ rest, tooLong = False\<rparr> info'" by blast
  also have "\<dots> = Failed e"
    using header_loop_fails [OF sc assms(2,3)] .
  finally show ?thesis
    by (simp add: parseInfo_def NewScanner_def)
qed

text \<open>\<open>getNumber\<close> converts what follows the last space, and gives zero without one.\<close>

lemma LastIndexByte_last:
  assumes "ch \<notin> set tok"
  shows "LastIndexByte (pre @ ch # tok) ch = int (length pre)"
proof -
  have "takeWhile (\<lambda>x. x \<noteq> ch) (rev tok @ ch # rev pre) = rev tok"
    using assms by (auto simp: takeWhile_tail)
  then show ?thesis
    by (simp add: LastIndexByte_def)
qed

lemma LastIndexByte_none: "ch \<notin> set t \<Longrightarrow> LastIndexByte t ch = - 1"
  by (simp add: LastIndexByte_def)

lemma getNumber_token:
  "CHR '' '' \<notin> set tok \<Longrightarrow> getNumber (pre @ CHR '' '' # tok) = Atoi tok"
proof -
  have "nat (int (length pre) + 1) = Suc (length pre)" by simp
  then show "CHR '' '' \<notin> set tok \<Longrightarrow> getNumber (pre @ CHR '' '' # tok) = Atoi tok"
    by (simp add: getNumber_def LastIndexByte_last Let_def del: of_nat_Suc)
qed

lemma getNumber_no_space: "CHR '' '' \<notin> set u \<Longrightarrow> getNumber u = Inr 0"
  by (simp add: getNumber_def LastIndexByte_none)

lemma no_space_passes: "numeric_label u \<Longrightarrow> CHR '' '' \<notin> set u \<Longrightarrow> passes u"
  using H_not_numeric [of u]
  by (auto simp: passes_def numeric_label_def getNumber_no_space)

text \<open>
  What \<open>Atoi\<close> accepts is an integer: an optional sign, at least one digit and nothing
  else, with a value in the range of \<open>int64\<close>.
\<close>

lemma ParseUint_loop_digits:
  "ParseUint_loop n s = Inr v \<Longrightarrow> 0 \<le> n \<Longrightarrow> list_all is_digit s \<and> n \<le> v"
proof (induction s arbitrary: n)
  case Nil
  then show ?case by simp
next
  case (Cons ch rest)
  from Cons.prems have d: "is_digit ch"
    and r: "ParseUint_loop (n * 10 + digit_val ch) rest = Inr v"
    by (auto split: if_splits)
  from d have "(48 :: nat) \<le> of_char ch"
    by (simp add: is_digit_def)
  moreover have "(of_char ch :: int) = int (of_char ch)"
    by (simp add: of_nat_of_char)
  moreover have "(of_char CHR ''0'' :: int) = 48"
    by simp
  ultimately have "0 \<le> digit_val ch"
    unfolding digit_val_def by linarith
  with Cons.prems(2) have "0 \<le> n * 10 + digit_val ch" and "n \<le> n * 10 + digit_val ch"
    by simp_all
  with Cons.IH [OF r] d show ?case by auto
qed

lemma Atoi_valid:
  assumes "Atoi s = Inr v"
  shows "(\<exists>sgn ds. s = sgn @ ds \<and> sgn \<in> {[], ''+'', ''-''} \<and> ds \<noteq> [] \<and> list_all is_digit ds)
         \<and> - (2 ^ 63) \<le> v \<and> v < 2 ^ 63"
proof -
  from assms obtain ch rest where s: "s = ch # rest"
    by (cases s) (auto simp: Atoi_def)
  define body where "body = (if ch = CHR ''+'' \<or> ch = CHR ''-'' then rest else s)"
  from assms s have ne: "body \<noteq> []"
    by (auto simp: Atoi_def Let_def body_def split: if_splits)
  from assms s ne obtain un where un: "ParseUint_loop 0 body = Inr un"
    and v: "v = (if ch = CHR ''-'' then - un else un)"
    and rng: "\<not> (ch \<noteq> CHR ''-'' \<and> un \<ge> 2 ^ 63)" "\<not> (ch = CHR ''-'' \<and> un > 2 ^ 63)"
    by (auto simp: Atoi_def Let_def body_def split: if_splits sum.splits)
  from ParseUint_loop_digits [OF un] have dg: "list_all is_digit body" and pos: "0 \<le> un"
    by simp_all
  have "s = (if ch = CHR ''+'' \<or> ch = CHR ''-'' then [ch] else []) @ body"
    by (simp add: body_def s)
  then have "\<exists>sgn ds. s = sgn @ ds \<and> sgn \<in> {[], ''+'', ''-''} \<and> ds \<noteq> [] \<and> list_all is_digit ds"
    using ne dg by (intro exI [of _ "if ch = CHR ''+'' \<or> ch = CHR ''-'' then [ch] else []"] exI [of _ body]) auto
  moreover have "- (2 ^ 63) \<le> v \<and> v < 2 ^ 63"
    using v rng pos by (auto split: if_splits)
  ultimately show ?thesis by blast
qed

text \<open>
  C8 (as amended). On a line with the label of a numeric header \<open>getNumber\<close> converts
  the text after the last space of the line, and when that text is no integer
  \<open>parseInfo\<close> returns the error of the conversion, wherever in the header the line
  stands. When the line contains no space at all nothing is converted: the field is set
  to zero, no error is returned and the header loop goes on.
\<close>

theorem numeric_header_parsing:
  "(CHR '' '' \<notin> set tok \<longrightarrow> getNumber (pre @ CHR '' '' # tok) = Atoi tok) \<and>
   (CHR '' '' \<notin> set u \<longrightarrow> getNumber u = Inr 0) \<and>
   (numeric_label u \<and> CHR '' '' \<notin> set u \<longrightarrow> passes u) \<and>
   (list_all header_line ls \<and> nl \<notin> set t \<and> length t < maxTokenSize \<and>
    (rest = [] \<or> hd rest = nl) \<and> numeric_label (dropCR t) \<and>
    dropCR t = pre' @ CHR '' '' # tok' \<and> CHR '' '' \<notin> set tok' \<and> Atoi tok' = Inl e
      \<longrightarrow> parseInfo (join_lines ls @ t @ rest) = Failed e)"
proof -
  have "parseInfo (join_lines ls @ t @ rest) = Failed e"
    if "list_all header_line ls" "nl \<notin> set t" "length t < maxTokenSize"
      "rest = [] \<or> hd rest = nl" "numeric_label (dropCR t)"
      "dropCR t = pre' @ CHR '' '' # tok'" "CHR '' '' \<notin> set tok'" "Atoi tok' = Inl e"
  proof -
    have "getNumber (dropCR t) = Inl e"
      using that(6-8) by (simp add: getNumber_token)
    from parseInfo_fails [OF that(1,5) this that(3,2,4)] show ?thesis .
  qed
  then show ?thesis
    using getNumber_token getNumber_no_space no_space_passes by blast
qed

lemma digits_simps:
  "is_digit CHR ''4''" "digit_val CHR ''4'' = 4" "\<not> is_digit CHR ''x''"
  by (simp_all add: is_digit_def digit_val_def)

theorem numeric_header_parsing_witness:
  "getNumber ''Revision: x'' = Inl ErrSyntax \<and>
   parseInfo ''Revision: 4\<newline>Size in memory: x\<newline>Members:'' = Failed ErrSyntax \<and>
   getNumber ''Revision:4'' = Inr 0 \<and> passes ''Revision:4''"
proof -
  have a: "Atoi ''x'' = Inl ErrSyntax"
    by (simp add: Atoi_def digits_simps)
  have hl: "list_all header_line [''Revision: 4'']"
    by (simp add: header_line_def nl_def maxTokenSize_def dropCR_def cr_def passes_def
          HasPrefix_def getNumber_def LastIndexByte_def Atoi_def digits_simps)
  have d: "dropCR ''Size in memory: x'' = ''Size in memory:'' @ CHR '' '' # ''x''"
    by (simp add: dropCR_def cr_def)
  have n: "numeric_label (dropCR ''Size in memory: x'')"
    by (simp add: dropCR_def cr_def numeric_label_def HasPrefix_def)
  have r: "''\<newline>Members:'' = [] \<or> hd ''\<newline>Members:'' = nl"
    by (simp add: nl_def)
  note inst = numeric_header_parsing [of "''x''" "''Revision:''" "''Revision:4''"
      "[''Revision: 4'']" "''Size in memory: x''" "''\<newline>Members:''" "''Size in memory:''" "''x''"
      ErrSyntax]
  have 1: "getNumber ''Revision: x'' = Inl ErrSyntax"
    using inst a by simp
  have 2: "parseInfo (join_lines [''Revision: 4''] @ ''Size in memory: x'' @ ''\<newline>Members:'')
             = Failed ErrSyntax"
    using inst hl d n r a by (simp add: nl_def maxTokenSize_def)
  have 3: "getNumber ''Revision:4'' = Inr 0 \<and> passes ''Revision:4''"
    using inst by (simp add: numeric_label_def HasPrefix_def)
  from 1 2 3 show ?thesis
    by (simp add: nl_def)
qed

text \<open>
  The line \<open>Revision:4\<close> has the label of the revision and no space: the listing parses
  without error and the revision is zero.
\<close>

theorem no_space_no_error:
  "parseInfo ''Revision:4'' = Done new_Info \<and> getNumber ''Revision:4'' = Inr 0"
proof -
  have sc: "Scan \<lparr>buf = ''Revision:4'', tooLong = False\<rparr>
              = (Some ''Revision:4'', \<lparr>buf = [], tooLong = False\<rparr>)"
    by (simp add: Scan_def nl_def maxTokenSize_def dropCR_def cr_def)
  have sc0: "Scan \<lparr>buf = [], tooLong = False\<rparr> = (None, \<lparr>buf = [], tooLong = False\<rparr>)"
    by (simp add: Scan_def)
  have g: "getNumber ''Revision:4'' = Inr 0"
    by (simp add: getNumber_no_space)
  have "header_loop (NewScanner ''Revision:4'') new_Info
          = Done (\<lparr>buf = [], tooLong = False\<rparr>, new_Info)"
    by (simp add: NewScanner_def header_loop.simps [of "\<lparr>buf = ''Revision:4'', tooLong = False\<rparr>"]
          header_loop.simps [of "\<lparr>buf = [], tooLong = False\<rparr>"] sc sc0 g HasPrefix_def
          new_Info_def)
  then show ?thesis
    using g by (simp add: parseInfo_def entries_loop.simps [of "\<lparr>buf = [], tooLong = False\<rparr>"] sc0)
qed

text \<open>\<open>set.List\<close> without options on a tool that succeeds is \<open>parseInfo\<close> of its output.\<close>

lemma group_unset: "group secs c new_options cat = []"
  by (cases cat) (simp_all add: group_def new_options_def)

lemma buildArgs_no_options:
  "pool_clean pool \<Longrightarrow>
   fst (buildArgs secs c [] pool) = (if isTwoArgs c then [action c, name c]
                                     else [action c, name c, entry c])"
  by (simp add: buildArgs_def appendArgs_tokens acquire_clean group_unset)

lemma cmdPool_Get_clean: "cmd_pool_clean cpool \<Longrightarrow> out (fst (cmdPool_Get cpool)) = []"
  by (cases cpool) (simp_all add: cmdPool_Get_def cmd_pool_clean_def new_cmd_def)

lemma List_parses_output:
  assumes "cmd_pool_clean cpool" and "pool_clean opool"
    and "run [v_list, set_name s] = (outp, None)"
  shows "fst (List secs run s [] cpool opool) =
           (case parseInfo outp of
              Panic \<Rightarrow> ListPanic
            | Failed e \<Rightarrow> ListParseError e
            | Done info \<Rightarrow> ListInfo (info\<lparr>Name := set_name s, SetType := set_setType s\<rparr>))"
proof -
  obtain c cpool' where g: "getCmd v_list (set_name s) (set_setType s) [] cpool = (c, cpool')"
    by (cases "getCmd v_list (set_name s) (set_setType s) [] cpool")
  then have c: "action c = v_list" "name c = set_name s" "out c = []"
    using cmdPool_Get_clean [OF assms(1)]
    by (auto simp: getCmd_def Let_def split: prod.splits)
  then have two: "isTwoArgs c" "needResolve c"
    by (simp_all add: isTwoArgs_def needResolve_def)
  have args: "fst (buildArgs secs c [] opool) = [v_list, set_name s]"
    using buildArgs_no_options [OF assms(2)] c two by simp
  obtain pool' where b: "buildArgs secs c [] opool = ([v_list, set_name s], pool')"
    using args by (cases "buildArgs secs c [] opool") simp
  have e: "exec secs run c [] opool = (None, c\<lparr>out := outp\<rparr>, pool')"
    using b assms(3) two c by (simp add: exec_def)
  show ?thesis
    using g e by (simp add: List_def split: outcome.splits)
qed

text \<open>
  C10 (as amended). \<open>parseInfo\<close> is not total. It panics on every input in which the
  header loop reaches a line that starts with \<open>H\<close> and is shorter than 8 bytes: the
  lines before it are header lines, that is, they fit the scanner, none is the members
  marker, no numeric header among them fails to parse and no shorter \<open>H\<close> line comes
  earlier. \<open>set.List\<close> then panics as well.
\<close>

theorem short_header_panics:
  assumes "list_all header_line ls" and "HasPrefix t ''H''" and "length t < 8"
    and "nl \<notin> set t" and "rest = [] \<or> hd rest = nl"
  shows "parseInfo (join_lines ls @ t @ rest) = Panic \<and>
         (cmd_pool_clean cpool \<and> pool_clean opool \<and>
          run [v_list, set_name s] = (join_lines ls @ t @ rest, None)
            \<longrightarrow> fst (List secs run s [] cpool opool) = ListPanic)"
  using parseInfo_panics [OF assms] List_parses_output [of cpool opool run s _ secs]
  by auto

theorem short_header_panics_witness:
  "list_all header_line [''Revision: 4''] \<and>
   parseInfo ''Revision: 4\<newline>Head'' = Panic \<and>
   fst (List whole_seconds (fakeExecCommand ''Revision: 4\<newline>Head'' None) getSet [] [] [])
     = ListPanic"
proof -
  have h: "list_all header_line [''Revision: 4'']"
    by (simp add: header_line_def nl_def maxTokenSize_def dropCR_def cr_def passes_def
          HasPrefix_def getNumber_def LastIndexByte_def Atoi_def digits_simps)
  have p: "HasPrefix ''Head'' ''H''" by (simp add: HasPrefix_def)
  have l: "length ''Head'' < 8" by simp
  have n: "nl \<notin> set ''Head''" by (simp add: nl_def)
  have r: "([] :: string) = [] \<or> hd ([] :: string) = nl" by simp
  note inst = short_header_panics [OF h p l n r, of "[]" "[]"
      "fakeExecCommand ''Revision: 4\<newline>Head'' None" getSet whole_seconds]
  have pools: "cmd_pool_clean [] \<and> pool_clean []"
    by (simp add: cmd_pool_clean_def pool_clean_def)
  have run: "fakeExecCommand ''Revision: 4\<newline>Head'' None [v_list, set_name getSet]
               = (join_lines [''Revision: 4''] @ ''Head'' @ [], None)"
    by (simp add: fakeExecCommand_def nl_def)
  have joined: "join_lines [''Revision: 4''] @ ''Head'' @ [] = ''Revision: 4\<newline>Head''"
    by (simp add: nl_def)
  from inst pools run h show ?thesis
    unfolding joined by simp
qed

text \<open>
  After the members marker a line is an entry whatever it starts with: this input
  contains the line \<open>Head\<close> and parses.
\<close>

theorem header_after_members_is_entry:
  "parseInfo ''Members:\<newline>Head'' = Done (new_Info\<lparr>Entries := [''Head'']\<rparr>) \<and>
   parseInfo ''Members:\<newline>Head'' \<noteq> Panic"
proof -
  have sc1: "Scan \<lparr>buf = ''Members:\<newline>Head'', tooLong = False\<rparr>
               = (Some ''Members:'', \<lparr>buf = ''Head'', tooLong = False\<rparr>)"
    by (simp add: Scan_def nl_def maxTokenSize_def dropCR_def cr_def)
  have sc2: "Scan \<lparr>buf = ''Head'', tooLong = False\<rparr>
               = (Some ''Head'', \<lparr>buf = [], tooLong = False\<rparr>)"
    by (simp add: Scan_def nl_def maxTokenSize_def dropCR_def cr_def)
  have sc0: "Scan \<lparr>buf = [], tooLong = False\<rparr> = (None, \<lparr>buf = [], tooLong = False\<rparr>)"
    by (simp add: Scan_def)
  have "header_loop (NewScanner ''Members:\<newline>Head'') new_Info
          = Done (\<lparr>buf = ''Head'', tooLong = False\<rparr>, new_Info)"
    by (simp add: NewScanner_def
          header_loop.simps [of "\<lparr>buf = ''Members:\<newline>Head'', tooLong = False\<rparr>"] sc1
          HasPrefix_def)
  moreover have "entries_loop \<lparr>buf = ''Head'', tooLong = False\<rparr> new_Info
          = new_Info\<lparr>Entries := [''Head'']\<rparr>"
    by (simp add: entries_loop.simps [of "\<lparr>buf = ''Head'', tooLong = False\<rparr>"]
          entries_loop.simps [of "\<lparr>buf = [], tooLong = False\<rparr>"] sc2 sc0 new_Info_def)
  ultimately show ?thesis
    by (simp add: parseInfo_def)
qed

end
